theory Spec2Isabelle
  imports Complex_Main "HOL-Library.Char_ord" "HOL-Library.List_Lexorder" "HOL-Library.Monad_Syntax"
begin

section \<open>Python values and built-ins used by threaded\_assess\_alignment.py\<close>

text \<open>
  Exceptions are values: every function that can raise returns \<open>error + 'a\<close>, with
  \<open>Inl\<close> for the exception. \<open>AlignIOError\<close> stands for whatever
  \<open>AlignIO.read\<close> raises on a report it cannot read.
\<close>

datatype error =
    FileNotFoundError
  | AlignIOError
  | AttributeError
  | ValueError
  | ZeroDivisionError
  | IndexError
  | UnboundLocalError

text \<open>
  Text is a list of 8-bit characters; the sequences and reports handled here are ASCII.
  \<open>isspace\<close> and \<open>isdigit\<close> are what the patterns \<open>\s\<close> and \<open>\d\<close> of a
  \<open>str\<close> regular expression match among the first 256 code points.
\<close>

definition isspace :: "char \<Rightarrow> bool" where
  "isspace c = (of_char c \<in> {9, 10, 11, 12, 13, 28, 29, 30, 31, 32, 133, 160 :: nat})"

definition isdigit :: "char \<Rightarrow> bool" where
  "isdigit c = (48 \<le> (of_char c :: nat) \<and> (of_char c :: nat) \<le> 57)"

definition startswith :: "string \<Rightarrow> string \<Rightarrow> bool" where
  "startswith s p = (take (length p) s = p)"

definition endswith :: "string \<Rightarrow> string \<Rightarrow> bool" where
  "endswith s p = (length p \<le> length s \<and> drop (length s - length p) s = p)"

text \<open>\<open>sub in s\<close> on strings.\<close>

fun contains :: "string \<Rightarrow> string \<Rightarrow> bool" where
  "contains [] sub = (sub = [])"
| "contains (c # cs) sub = (startswith (c # cs) sub \<or> contains cs sub)"

text \<open>\<open>s.replace('-', '')\<close>, \<open>s.lstrip('-')\<close> and \<open>s.rstrip('-')\<close>.\<close>

definition remove_gaps :: "string \<Rightarrow> string" where
  "remove_gaps s = filter (\<lambda>c. c \<noteq> CHR ''-'') s"

definition lstrip_gap :: "string \<Rightarrow> string" where
  "lstrip_gap s = dropWhile (\<lambda>c. c = CHR ''-'') s"

definition rstrip_gap :: "string \<Rightarrow> string" where
  "rstrip_gap s = rev (dropWhile (\<lambda>c. c = CHR ''-'') (rev s))"

text \<open>\<open>s.rstrip()\<close> and \<open>s.split(sep)[0]\<close> for a one-character separator.\<close>

definition rstrip :: "string \<Rightarrow> string" where
  "rstrip s = rev (dropWhile isspace (rev s))"

definition split_first :: "char \<Rightarrow> string \<Rightarrow> string" where
  "split_first sep s = takeWhile (\<lambda>c. c \<noteq> sep) s"

text \<open>
  Slices \<open>s[i:]\<close> and \<open>s[:j]\<close> with Python's reading of a negative bound (counted
  from the end, clipped at the start), and the subscripts \<open>s[0]\<close> and \<open>s[-1]\<close>,
  which raise on the empty string.
\<close>

definition slice_from :: "'a list \<Rightarrow> int \<Rightarrow> 'a list" where
  "slice_from s i = (if i < 0 then drop (nat (int (length s) + i)) s else drop (nat i) s)"

definition slice_to :: "'a list \<Rightarrow> int \<Rightarrow> 'a list" where
  "slice_to s j = (if j < 0 then take (nat (int (length s) + j)) s else take (nat j) s)"

definition first_char :: "string \<Rightarrow> error + char" where
  "first_char s = (case s of [] \<Rightarrow> Inl IndexError | c # _ \<Rightarrow> Inr c)"

definition last_char :: "string \<Rightarrow> error + char" where
  "last_char s = (if s = [] then Inl IndexError else Inr (last s))"

definition len :: "'a list \<Rightarrow> int" where
  "len s = int (length s)"

subsection \<open>Floats\<close>

text \<open>
  A finite Python float is the rational it denotes. \<open>binary64\<close> rounds a rational to
  the nearest float with 53 significant bits, ties to the even significand, as the
  division of two ints and the product of two floats do. The exponent is clipped
  below at the subnormal spacing and not clipped above: the quotients and products
  formed in this program are at most 100 times a ratio of two string lengths.
\<close>

definition round_half_even :: "rat \<Rightarrow> int" where
  "round_half_even x =
     (let f = \<lfloor>x\<rfloor>; d = x - of_int f
      in if d < 1 / 2 then f
         else if 1 / 2 < d then f + 1
         else if even f then f else f + 1)"

function bits :: "int \<Rightarrow> int" where
  "bits n = (if n \<le> 0 then 0 else 1 + bits (n div 2))"
  by pat_completeness auto
termination
  by (relation "measure nat") auto

declare bits.simps [simp del]

definition pow2 :: "int \<Rightarrow> rat" where
  "pow2 e = (if 0 \<le> e then 2 ^ nat e else 1 / 2 ^ nat (- e))"

text \<open>The exponent \<open>L\<close> with \<open>2^L \<le> x < 2^(L+1)\<close>, for positive \<open>x\<close>.\<close>

definition floor_log2 :: "rat \<Rightarrow> int" where
  "floor_log2 x =
     (let (n, d) = quotient_of x;
          l = bits n - bits d
      in if pow2 l \<le> x then l else l - 1)"

definition binary64 :: "rat \<Rightarrow> rat" where
  "binary64 x =
     (if x = 0 then 0
      else let e = max (floor_log2 \<bar>x\<bar> - 52) (- 1074)
           in sgn x * of_int (round_half_even (\<bar>x\<bar> / pow2 e)) * pow2 e)"

text \<open>\<open>x / y\<close> on two ints and \<open>x * y\<close> on two floats.\<close>

definition int_truediv :: "int \<Rightarrow> int \<Rightarrow> error + rat" where
  "int_truediv x y =
     (if y = 0 then Inl ZeroDivisionError else Inr (binary64 (of_int x / of_int y)))"

definition float_mul :: "rat \<Rightarrow> rat \<Rightarrow> rat" where
  "float_mul x y = binary64 (x * y)"

text \<open>\<open>str\<close> of a non-negative int, and of any int.\<close>

function digits :: "int \<Rightarrow> string" where
  "digits n =
     (if n < 10 then [char_of (48 + n)]
      else digits (n div 10) @ [char_of (48 + n mod 10)])"
  by pat_completeness auto
termination
  by (relation "measure nat") auto

declare digits.simps [simp del]

definition str_int :: "int \<Rightarrow> string" where
  "str_int i = (if i < 0 then CHR ''-'' # digits (- i) else digits i)"

text \<open>
  \<open>"{0:.2f}".format(x)\<close> for a float \<open>x \<ge> 0\<close>: the exact value of \<open>x\<close> rounded to
  hundredths, ties to even, written with two fractional digits.
\<close>

definition format_2f :: "rat \<Rightarrow> string" where
  "format_2f x =
     (let k = round_half_even (x * 100)
      in digits (k div 100) @ ''.'' @ [char_of (48 + (k mod 100) div 10), char_of (48 + k mod 10)])"

section \<open>Metric calculator\<close>

text \<open>
  \<open>calculate_exact_alignment\<close>: the loop over \<open>zip(aseq, bseq)\<close> keeps the two
  counters \<open>total\<close> and \<open>perfect_match\<close>, here \<open>(tot, perfect_match)\<close>.
\<close>

fun exact_loop :: "string \<Rightarrow> string \<Rightarrow> int \<times> int \<Rightarrow> int \<times> int" where
  "exact_loop (a_base # as) (b_base # bs) (tot, perfect_match) =
     (if a_base \<noteq> CHR ''-'' then
        (if a_base = b_base then exact_loop as bs (tot + 1, perfect_match + 1)
         else exact_loop as bs (tot + 1, perfect_match))
      else exact_loop as bs (tot, perfect_match))"
| "exact_loop _ _ acc = acc"

definition calculate_exact_alignment :: "string \<Rightarrow> string \<Rightarrow> error + string" where
  "calculate_exact_alignment aseq bseq =
     (let (tot, perfect_match) = exact_loop aseq bseq (0, 0)
      in case int_truediv perfect_match tot of
           Inl e \<Rightarrow> Inl e
         | Inr q \<Rightarrow> Inr (format_2f (float_mul q 100)))"

text \<open>
  \<open>find_ref_len\<close>. The conditions short-circuit as \<open>and\<close> does: \<open>b[0]\<close> is read only
  when \<open>a[0]\<close> is not a gap, and likewise at the end.
\<close>

definition find_ref_len :: "string \<Rightarrow> string \<Rightarrow> error + int" where
  "find_ref_len a b =
     (case first_char a of Inl e \<Rightarrow> Inl e | Inr a0 \<Rightarrow>
      case (if a0 \<noteq> CHR ''-'' then first_char b else Inr a0) of Inl e \<Rightarrow> Inl e | Inr b0 \<Rightarrow>
      let a_align_seq =
            (if a0 \<noteq> CHR ''-'' \<and> b0 = CHR ''-''
             then let bstrip1 = lstrip_gap b; ltrim = len b - len bstrip1
                  in slice_from a ltrim
             else a)
      in
      case last_char a of Inl e \<Rightarrow> Inl e | Inr a1 \<Rightarrow>
      case (if a1 \<noteq> CHR ''-'' then last_char b else Inr a1) of Inl e \<Rightarrow> Inl e | Inr b1 \<Rightarrow>
      let a_align_seq =
            (if a1 \<noteq> CHR ''-'' \<and> b1 = CHR ''-''
             then let bstrip2 = rstrip_gap b; rtrim = (len b - len bstrip2) * (- 1)
                  in slice_to a_align_seq rtrim
             else a_align_seq);
          a_align_seq = remove_gaps a_align_seq;
          ref_align_len = len a_align_seq
      in Inr ref_align_len)"

section \<open>Alignment report parser\<close>

text \<open>
  The two patterns of \<open>parse_alignment\<close>, matched at the start of a string. In both,
  each repeated class is followed by a character outside the class, so the greedy
  match is the only one and no backtracking is involved. \<open>at_end\<close> is \<open>$\<close>: the end
  of the string, or just before a newline that ends it.
\<close>

definition lit :: "string \<Rightarrow> string \<Rightarrow> string option" where
  "lit p s = (if startswith s p then Some (drop (length p) s) else None)"

definition one :: "(char \<Rightarrow> bool) \<Rightarrow> string \<Rightarrow> string option" where
  "one P s = (case s of [] \<Rightarrow> None | c # r \<Rightarrow> if P c then Some r else None)"

definition many1 :: "(char \<Rightarrow> bool) \<Rightarrow> string \<Rightarrow> string option" where
  "many1 P s = (if takeWhile P s = [] then None else Some (dropWhile P s))"

definition opt :: "(char \<Rightarrow> bool) \<Rightarrow> string \<Rightarrow> string" where
  "opt P s = (case s of [] \<Rightarrow> s | c # r \<Rightarrow> if P c then r else s)"

definition at_end :: "string \<Rightarrow> bool" where
  "at_end s = (s = [] \<or> s = [CHR 0x0A])"

text \<open>\<open>#\sScore:\s(.*)$\<close>, returning group 1.\<close>

definition score_at :: "string \<Rightarrow> string option" where
  "score_at s =
     do {
       s1 \<leftarrow> lit ''#'' s;
       s2 \<leftarrow> one isspace s1;
       s3 \<leftarrow> lit ''Score:'' s2;
       s4 \<leftarrow> one isspace s3;
       if at_end (dropWhile (\<lambda>c. c \<noteq> CHR 0x0A) s4)
       then Some (takeWhile (\<lambda>c. c \<noteq> CHR 0x0A) s4)
       else None
     }"

text \<open>\<open>#\sIdentity:\s+\d+/\d+\s\(\s?(\d+\.\d+)%\)$\<close>, returning group 1.\<close>

definition identity_at :: "string \<Rightarrow> string option" where
  "identity_at s =
     do {
       s1 \<leftarrow> lit ''#'' s;
       s2 \<leftarrow> one isspace s1;
       s3 \<leftarrow> lit ''Identity:'' s2;
       s4 \<leftarrow> many1 isspace s3;
       s5 \<leftarrow> many1 isdigit s4;
       s6 \<leftarrow> lit ''/'' s5;
       s7 \<leftarrow> many1 isdigit s6;
       s8 \<leftarrow> one isspace s7;
       s9 \<leftarrow> lit ''('' s8;
       g \<leftarrow> Some (opt isspace s9);
       s10 \<leftarrow> many1 isdigit g;
       s11 \<leftarrow> lit ''.'' s10;
       s12 \<leftarrow> many1 isdigit s11;
       s13 \<leftarrow> lit ''%)'' s12;
       if at_end s13 then Some (take (length g - length s12) g) else None
     }"

text \<open>\<open>re.search\<close>: the match at the leftmost position that has one.\<close>

fun re_search :: "(string \<Rightarrow> string option) \<Rightarrow> string \<Rightarrow> string option" where
  "re_search m [] = m []"
| "re_search m (c # cs) = (case m (c # cs) of Some g \<Rightarrow> Some g | None \<Rightarrow> re_search m cs)"

text \<open>
  The dictionary \<open>stats\<close>. Both entries start as the int \<open>0\<close>; \<open>'score'\<close> becomes
  the matched text and \<open>'id'\<close> the float read from the matched text.
\<close>

datatype pyscore = ScoreInt int | ScoreStr string

datatype pynum = PyInt int | PyFloat rat

record stats =
  stats_score :: pyscore
  stats_id :: pynum

definition stats0 :: stats where
  "stats0 = \<lparr>stats_score = ScoreInt 0, stats_id = PyInt 0\<rparr>"

text \<open>
  \<open>float(s)\<close> on a string is Python's own parser and is a parameter \<open>float_str\<close> of the
  model (\<open>None\<close> is its ValueError). \<open>None.group(1)\<close>, when a marker line
  does not match its pattern, is an AttributeError. The file is given by its lines,
  each with its line end.
\<close>

fun parse_loop :: "(string \<Rightarrow> rat option) \<Rightarrow> string list \<Rightarrow> stats \<Rightarrow> error + stats" where
  "parse_loop float_str [] st = Inr st"
| "parse_loop float_str (line # rest) st =
     (if startswith line ''# Score:'' then
        (case re_search score_at line of
           None \<Rightarrow> Inl AttributeError
         | Some g \<Rightarrow> parse_loop float_str rest (st\<lparr>stats_score := ScoreStr g\<rparr>))
      else if startswith line ''# Identity:'' then
        (case re_search identity_at line of
           None \<Rightarrow> Inl AttributeError
         | Some g \<Rightarrow>
             (case float_str g of
                None \<Rightarrow> Inl ValueError
              | Some x \<Rightarrow> parse_loop float_str rest (st\<lparr>stats_id := PyFloat x\<rparr>)))
      else if startswith line ''a.trimmed'' then Inr st
      else parse_loop float_str rest st)"

definition parse_alignment :: "(string \<Rightarrow> rat option) \<Rightarrow> string list \<Rightarrow> error + stats" where
  "parse_alignment float_str infile = parse_loop float_str infile stats0"

section \<open>Scanner and best-hit selector: the two workers\<close>

text \<open>
  A report file, as the worker sees it: its size (\<open>os.stat\<close>), what
  \<open>AlignIO.read(path, 'emboss')\<close> makes of it (the aligned sequences in order, or an
  exception), and its lines. A directory is the list of its entries in the order
  \<open>os.listdir\<close> gives them, and the file system maps a path to its directory, if any.
\<close>

record report =
  st_size :: nat
  AlignIO_read :: "error + string list"
  report_lines :: "string list"

type_synonym directory = "(string \<times> report) list"

type_synonym filesystem = "string \<Rightarrow> directory option"

text \<open>
  The local variables of a worker: the parallel lists (\<open>length\<close> is \<open>length_l\<close> here;
  \<open>nogap_id\<close> exists in \<open>scaffold_worker\<close> only), the flag \<open>aligned\<close>, and
  \<open>ref_align_len\<close>, which is unbound until its first assignment and keeps its value
  from one file to the next.
\<close>

record scan =
  isos :: "string list"
  scores :: "rat list"
  ids :: "pynum list"
  files :: "string list"
  cov :: "rat list"
  length_l :: "int list"
  ref_len :: "int list"
  nogap_id :: "string list"
  aligned :: bool
  ref_align_len :: "int option"

definition scan0 :: scan where
  "scan0 = \<lparr>isos = [], scores = [], ids = [], files = [], cov = [], length_l = [],
             ref_len = [], nogap_id = [], aligned = False, ref_align_len = None\<rparr>"

text \<open>\<open>float(stats['score'])\<close>.\<close>

definition float_score :: "(string \<Rightarrow> rat option) \<Rightarrow> pyscore \<Rightarrow> error + rat" where
  "float_score float_str v =
     (case v of
        ScoreInt i \<Rightarrow> Inr (of_int i)
      | ScoreStr t \<Rightarrow> (case float_str t of None \<Rightarrow> Inl ValueError | Some x \<Rightarrow> Inr x))"

text \<open>The statements that close the loop body of both workers, from \<open>parse_alignment\<close> on.\<close>

definition append_candidate ::
  "(string \<Rightarrow> rat option) \<Rightarrow> scan \<Rightarrow> string \<Rightarrow> string \<Rightarrow> report \<Rightarrow> string \<Rightarrow> string \<Rightarrow> error + scan"
where
  "append_candidate float_str st isolate full_path rep a b =
     (case parse_alignment float_str (report_lines rep) of Inl e \<Rightarrow> Inl e | Inr stats \<Rightarrow>
      case float_score float_str (stats_score stats) of Inl e \<Rightarrow> Inl e | Inr sc \<Rightarrow>
      case int_truediv (len a) (len b) of Inl e \<Rightarrow> Inl e | Inr c \<Rightarrow>
      case ref_align_len st of None \<Rightarrow> Inl UnboundLocalError | Some r \<Rightarrow>
        Inr (st\<lparr>isos := isos st @ [isolate],
                scores := scores st @ [sc],
                ids := ids st @ [stats_id stats],
                cov := cov st @ [c],
                length_l := length_l st @ [len b],
                ref_len := ref_len st @ [r],
                files := files st @ [full_path]\<rparr>))"

subsection \<open>\<open>spades_worker\<close>\<close>

text \<open>\<open>for sequence in alignment\<close>: the first sequence goes to \<open>a\<close>, every later one to \<open>b\<close>.\<close>

fun spades_sequences :: "string list \<Rightarrow> string \<times> string \<Rightarrow> string \<times> string" where
  "spades_sequences [] ab = ab"
| "spades_sequences (sequence # rest) (a, b) =
     spades_sequences rest (if a = [] then (sequence, b) else (a, sequence))"

definition spades_file ::
  "(string \<Rightarrow> rat option) \<Rightarrow> string \<Rightarrow> string \<Rightarrow> scan \<Rightarrow> string \<times> report \<Rightarrow> error + scan"
where
  "spades_file float_str algn_dir priority st entry =
     (let file = fst entry; rep = snd entry in
      if endswith file ''.trimmed_align.txt'' then
        if priority \<noteq> [] \<and> \<not> startswith file priority then Inr st
        else
          let st = st\<lparr>aligned := True\<rparr>;
              isolate = split_first (CHR ''.'') file;
              full_path = algn_dir @ ''/'' @ file
          in
          case AlignIO_read rep of Inl e \<Rightarrow> Inl e | Inr alignment \<Rightarrow>
          let ab = spades_sequences alignment ([], []); a = fst ab; b = snd ab in
          if a \<noteq> [] \<and> b \<noteq> [] then
            (case find_ref_len a b of Inl e \<Rightarrow> Inl e | Inr r \<Rightarrow>
               append_candidate float_str (st\<lparr>ref_align_len := Some r\<rparr>) isolate full_path rep
                 (remove_gaps a) (remove_gaps b))
          else append_candidate float_str st isolate full_path rep a b
      else Inr st)"

text \<open>\<open>for file in os.listdir(algn_dir)\<close>: an exception in the body ends the worker.\<close>

fun scan_dir :: "(scan \<Rightarrow> string \<times> report \<Rightarrow> error + scan) \<Rightarrow> directory \<Rightarrow> scan \<Rightarrow> error + scan" where
  "scan_dir body [] st = Inr st"
| "scan_dir body (entry # rest) st =
     (case body st entry of Inl e \<Rightarrow> Inl e | Inr st' \<Rightarrow> scan_dir body rest st')"

text \<open>
  \<open>max(xs)\<close> keeps the first of the greatest elements and raises on the empty list;
  \<open>xs.index(v)\<close> is the first position whose element equals \<open>v\<close>. The comparison is a
  parameter: floats and the int \<open>0\<close> compare by value, strings by code points.
\<close>

fun py_max :: "('a \<Rightarrow> 'a \<Rightarrow> bool) \<Rightarrow> 'a list \<Rightarrow> error + 'a" where
  "py_max lt [] = Inl ValueError"
| "py_max lt (x # xs) = Inr (foldl (\<lambda>m y. if lt m y then y else m) x xs)"

fun py_index :: "('a \<Rightarrow> 'a \<Rightarrow> bool) \<Rightarrow> 'a list \<Rightarrow> 'a \<Rightarrow> error + nat" where
  "py_index eq [] v = Inl ValueError"
| "py_index eq (x # xs) v =
     (if eq x v then Inr 0
      else case py_index eq xs v of Inl e \<Rightarrow> Inl e | Inr i \<Rightarrow> Inr (Suc i))"

definition subscript :: "'a list \<Rightarrow> nat \<Rightarrow> error + 'a" where
  "subscript xs i = (if i < length xs then Inr (xs ! i) else Inl IndexError)"

definition num_val :: "pynum \<Rightarrow> rat" where
  "num_val v = (case v of PyInt i \<Rightarrow> of_int i | PyFloat x \<Rightarrow> x)"

definition num_less :: "pynum \<Rightarrow> pynum \<Rightarrow> bool" where
  "num_less x y = (num_val x < num_val y)"

definition num_equal :: "pynum \<Rightarrow> pynum \<Rightarrow> bool" where
  "num_equal x y = (num_val x = num_val y)"

text \<open>
  \<open>"{0}".format(v)\<close>: \<open>str\<close> of an int, and for a float Python's shortest
  representation, a parameter \<open>repr_float\<close> of the model.
\<close>

definition format_num :: "(rat \<Rightarrow> string) \<Rightarrow> pynum \<Rightarrow> string" where
  "format_num repr_float v = (case v of PyInt i \<Rightarrow> str_int i | PyFloat x \<Rightarrow> repr_float x)"

definition tab :: string where
  "tab = [CHR 0x09]"

definition newline :: string where
  "newline = [CHR 0x0A]"

text \<open>The record line of position \<open>x\<close>, six columns.\<close>

definition spades_line :: "(rat \<Rightarrow> string) \<Rightarrow> scan \<Rightarrow> nat \<Rightarrow> error + string" where
  "spades_line repr_float st x =
     (case subscript (ids st) x of Inl e \<Rightarrow> Inl e | Inr best_id \<Rightarrow>
      case subscript (cov st) x of Inl e \<Rightarrow> Inl e | Inr best_cov \<Rightarrow>
      case subscript (length_l st) x of Inl e \<Rightarrow> Inl e | Inr best_len \<Rightarrow>
      case subscript (isos st) x of Inl e \<Rightarrow> Inl e | Inr best_iso \<Rightarrow>
      case subscript (ref_len st) x of Inl e \<Rightarrow> Inl e | Inr best_ref_len \<Rightarrow>
      case subscript (files st) x of Inl e \<Rightarrow> Inl e | Inr best_file \<Rightarrow>
        Inr (format_num repr_float best_id @ tab @ repr_float best_cov @ tab @ str_int best_len
             @ tab @ best_iso @ tab @ str_int best_ref_len @ tab @ best_file @ newline))"

text \<open>
  What a worker did: the messages it put on the queue, in order, and the exception it
  ended with, if any. \<open>put_all\<close> is the loop of the \<open>'no'\<close> branch, which stops at
  the first line that raises.
\<close>

type_synonym outcome = "string list \<times> error option"

fun put_all :: "(error + string) list \<Rightarrow> outcome" where
  "put_all [] = ([], None)"
| "put_all (Inl e # rest) = ([], Some e)"
| "put_all (Inr msg # rest) = (msg # fst (put_all rest), snd (put_all rest))"

definition spades_worker ::
  "(string \<Rightarrow> rat option) \<Rightarrow> (rat \<Rightarrow> string) \<Rightarrow> filesystem \<Rightarrow> string \<Rightarrow> string \<Rightarrow> string \<Rightarrow> string \<Rightarrow> outcome"
where
  "spades_worker float_str repr_float fs algn_dir locus priority best_only =
     (case fs algn_dir of None \<Rightarrow> ([], Some FileNotFoundError) | Some entries \<Rightarrow>
      case scan_dir (spades_file float_str algn_dir priority) entries scan0 of
        Inl e \<Rightarrow> ([], Some e)
      | Inr st \<Rightarrow>
          if \<not> aligned st then ([], None)
          else if best_only = ''yes'' then
            (case py_max num_less (ids st) of Inl e \<Rightarrow> ([], Some e) | Inr m \<Rightarrow>
             case py_index num_equal (ids st) m of Inl e \<Rightarrow> ([], Some e) | Inr best \<Rightarrow>
             case spades_line repr_float st best of Inl e \<Rightarrow> ([], Some e) | Inr msg \<Rightarrow>
               ([msg], None))
          else if best_only = ''no'' then
            put_all (map (spades_line repr_float st) [0..<length (files st)])
          else ([], None))"

subsection \<open>\<open>scaffold_worker\<close>\<close>

text \<open>
  Here the block under \<open>if a != "" and b != ""\<close> is inside the loop over the
  sequences: it runs after every sequence that leaves both strings non-empty, and
  each run appends to \<open>nogap_id\<close>.
\<close>

fun scaffold_sequences :: "string list \<Rightarrow> string \<times> string \<times> scan \<Rightarrow> error + string \<times> string \<times> scan" where
  "scaffold_sequences [] abst = Inr abst"
| "scaffold_sequences (sequence # rest) (a, b, st) =
     (let a' = (if a = [] then sequence else a);
          b' = (if a = [] then b else sequence)
      in if a' \<noteq> [] \<and> b' \<noteq> [] then
           (case find_ref_len a' b' of Inl e \<Rightarrow> Inl e | Inr r \<Rightarrow>
            case calculate_exact_alignment a' b' of Inl e \<Rightarrow> Inl e | Inr x \<Rightarrow>
              scaffold_sequences rest
                (remove_gaps a', remove_gaps b',
                 st\<lparr>ref_align_len := Some r, nogap_id := nogap_id st @ [x]\<rparr>))
         else scaffold_sequences rest (a', b', st))"

definition scaffold_file ::
  "(string \<Rightarrow> rat option) \<Rightarrow> string \<Rightarrow> string \<Rightarrow> scan \<Rightarrow> string \<times> report \<Rightarrow> error + scan"
where
  "scaffold_file float_str algn_dir priority st entry =
     (let file = fst entry; rep = snd entry in
      if contains file ''Scaffold'' \<and> endswith file ''.trimmed_align.txt'' then
        if priority \<noteq> [] \<and> \<not> startswith file priority then Inr st
        else
          let st = st\<lparr>aligned := True\<rparr>;
              isolate = split_first (CHR ''.'') file;
              full_path = algn_dir @ ''/'' @ file
          in
          if st_size rep = 0 then Inr st
          else
            case AlignIO_read rep of Inl e \<Rightarrow> Inl e | Inr alignment \<Rightarrow>
            case scaffold_sequences alignment ([], [], st) of Inl e \<Rightarrow> Inl e | Inr (a, b, st) \<Rightarrow>
              append_candidate float_str st isolate full_path rep a b
      else Inr st)"

text \<open>The record line of position \<open>x\<close>, seven columns.\<close>

definition scaffold_line :: "(rat \<Rightarrow> string) \<Rightarrow> scan \<Rightarrow> nat \<Rightarrow> error + string" where
  "scaffold_line repr_float st x =
     (case subscript (ids st) x of Inl e \<Rightarrow> Inl e | Inr best_id \<Rightarrow>
      case subscript (cov st) x of Inl e \<Rightarrow> Inl e | Inr best_cov \<Rightarrow>
      case subscript (length_l st) x of Inl e \<Rightarrow> Inl e | Inr best_len \<Rightarrow>
      case subscript (isos st) x of Inl e \<Rightarrow> Inl e | Inr best_iso \<Rightarrow>
      case subscript (ref_len st) x of Inl e \<Rightarrow> Inl e | Inr best_ref_len \<Rightarrow>
      case subscript (files st) x of Inl e \<Rightarrow> Inl e | Inr best_file \<Rightarrow>
      case subscript (nogap_id st) x of Inl e \<Rightarrow> Inl e | Inr best_nogap_id \<Rightarrow>
        Inr (format_num repr_float best_id @ tab @ repr_float best_cov @ tab @ str_int best_len
             @ tab @ best_iso @ tab @ str_int best_ref_len @ tab @ best_file @ tab
             @ best_nogap_id @ newline))"

text \<open>\<open>max(nogap_id)\<close> compares the formatted strings.\<close>

definition str_less :: "string \<Rightarrow> string \<Rightarrow> bool" where
  "str_less x y = (x < y)"

definition str_equal :: "string \<Rightarrow> string \<Rightarrow> bool" where
  "str_equal x y = (x = y)"

definition scaffold_worker ::
  "(string \<Rightarrow> rat option) \<Rightarrow> (rat \<Rightarrow> string) \<Rightarrow> filesystem \<Rightarrow> string \<Rightarrow> string \<Rightarrow> string \<Rightarrow> string \<Rightarrow> outcome"
where
  "scaffold_worker float_str repr_float fs algn_dir locus priority best_only =
     (case fs algn_dir of None \<Rightarrow> ([], Some FileNotFoundError) | Some entries \<Rightarrow>
      case scan_dir (scaffold_file float_str algn_dir priority) entries scan0 of
        Inl e \<Rightarrow> ([], Some e)
      | Inr st \<Rightarrow>
          if \<not> aligned st then ([], None)
          else if best_only = ''yes'' then
            (case py_max str_less (nogap_id st) of Inl e \<Rightarrow> ([], Some e) | Inr m \<Rightarrow>
             case py_index str_equal (nogap_id st) m of Inl e \<Rightarrow> ([], Some e) | Inr best \<Rightarrow>
             case scaffold_line repr_float st best of Inl e \<Rightarrow> ([], Some e) | Inr msg \<Rightarrow>
               ([msg], None))
          else if best_only = ''no'' then
            put_all (map (scaffold_line repr_float st) [0..<length (files st)])
          else ([], None))"

section \<open>Aggregation writer and orchestrator\<close>

text \<open>
  \<open>listener\<close>, run on the messages in the order they reach the queue, with the text
  written to the output file so far. It returns the file when it reads \<open>'stop'\<close>;
  \<open>None\<close> is the writer blocked in \<open>queue.get()\<close> on a queue that holds no further
  message.
\<close>

fun listener :: "string list \<Rightarrow> string \<Rightarrow> string option" where
  "listener [] out = None"
| "listener (msg # queue) out =
     (if msg = ''stop'' then Some out else listener queue (out @ msg))"

text \<open>
  \<open>main\<close>. One job per line of the locus map; \<open>job.get()\<close> re-raises the exception
  its worker ended with, which ends \<open>main\<close> before \<open>q.put('stop')\<close>. The workers
  share nothing but the queue, so a run that completes is described by the messages
  on the queue; they are listed here locus by locus, one of the orders in which the
  pool can deliver them.
\<close>

record args =
  align_path :: string
  priority :: string
  best_only :: string
  assmb_type :: string


definition dispatch ::
  "(string \<Rightarrow> rat option) \<Rightarrow> (rat \<Rightarrow> string) \<Rightarrow> args \<Rightarrow> filesystem \<Rightarrow> string \<Rightarrow> outcome list"
where
  "dispatch float_str repr_float ar fs line =
     (let line = rstrip line;
          locus = split_first (CHR 0x09) line;
          algn_dir = align_path ar @ ''/'' @ locus
      in if assmb_type ar = ''SPAdes'' then
           [spades_worker float_str repr_float fs algn_dir locus (priority ar) (best_only ar)]
         else if assmb_type ar = ''HGA'' then
           [scaffold_worker float_str repr_float fs algn_dir locus (priority ar) (best_only ar)]
         else [])"



section \<open>Notions used to state the properties\<close>

text \<open>
  The reference-covered length as the specification words it: if \<open>a\<close> starts with a
  base and \<open>b\<close> with a gap, remove from the start of \<open>a\<close> as many characters as the
  leading gap run of \<open>b\<close> has; do the mirror image at the end (the same removal on the
  reversed strings); count the characters of what is left that are not gaps.
\<close>

definition leading_gaps :: "string \<Rightarrow> nat" where
  "leading_gaps s = length (takeWhile (\<lambda>c. c = CHR ''-'') s)"

definition spec_ref_covered_length :: "string \<Rightarrow> string \<Rightarrow> nat" where
  "spec_ref_covered_length a b =
     (let a1 = (if hd a \<noteq> CHR ''-'' \<and> hd b = CHR ''-'' then drop (leading_gaps b) a else a);
          a2 = (if last a \<noteq> CHR ''-'' \<and> last b = CHR ''-''
                then rev (drop (leading_gaps (rev b)) (rev a1)) else a1)
      in length (filter (\<lambda>c. c \<noteq> CHR ''-'') a2))"

text \<open>
  A file is a valid candidate of its locus when the loop body of the worker, run on that
  file alone with fresh locals, returns and has appended the file to the lists. The
  candidates of a locus are the locals such runs end with, in scan order.
\<close>

definition valid_candidate :: "error + scan \<Rightarrow> bool" where
  "valid_candidate r = (case r of Inl e \<Rightarrow> False | Inr s \<Rightarrow> files s \<noteq> [])"

definition candidates :: "(scan \<Rightarrow> string \<times> report \<Rightarrow> error + scan) \<Rightarrow> directory \<Rightarrow> scan list" where
  "candidates body entries = map projr (filter valid_candidate (map (body scan0) entries))"

text \<open>The reported percent identity of a candidate.\<close>

definition identity_of :: "scan \<Rightarrow> rat" where
  "identity_of s = num_val (hd (ids s))"

text \<open>
  The files a worker retains: the tests of the loop body up to the point where it
  starts reading the report.
\<close>

definition spades_retained :: "string \<Rightarrow> string \<times> report \<Rightarrow> bool" where
  "spades_retained p c =
     (endswith (fst c) ''.trimmed_align.txt'' \<and> \<not> (p \<noteq> [] \<and> \<not> startswith (fst c) p))"

definition scaffold_retained :: "string \<Rightarrow> string \<times> report \<Rightarrow> bool" where
  "scaffold_retained p c =
     (contains (fst c) ''Scaffold'' \<and> endswith (fst c) ''.trimmed_align.txt''
      \<and> \<not> (p \<noteq> [] \<and> \<not> startswith (fst c) p) \<and> st_size (snd c) \<noteq> 0)"

text \<open>The report parses to an alignment of exactly two sequences (when it parses at all).\<close>

definition two_sequences :: "string \<times> report \<Rightarrow> bool" where
  "two_sequences c = (case AlignIO_read (snd c) of Inl e \<Rightarrow> True | Inr seqs \<Rightarrow> length seqs = 2)"

text \<open>
  Proof devices. \<open>merge st s\<close> is what the locals \<open>st\<close> become after a piece of the
  scan that, started with fresh locals, ends with \<open>s\<close>; \<open>one_row\<close> and \<open>no_row\<close>
  say that the lists of a state hold one candidate, or none.
\<close>

definition merge :: "scan \<Rightarrow> scan \<Rightarrow> scan" where
  "merge st s =
     \<lparr>isos = isos st @ isos s, scores = scores st @ scores s, ids = ids st @ ids s,
      files = files st @ files s, cov = cov st @ cov s, length_l = length_l st @ length_l s,
      ref_len = ref_len st @ ref_len s, nogap_id = nogap_id st @ nogap_id s,
      aligned = (aligned st \<or> aligned s),
      ref_align_len = (case ref_align_len s of None \<Rightarrow> ref_align_len st | Some r \<Rightarrow> Some r)\<rparr>"

definition one_row :: "scan \<Rightarrow> bool" where
  "one_row s = (length (isos s) = 1 \<and> length (scores s) = 1 \<and> length (ids s) = 1
     \<and> length (files s) = 1 \<and> length (cov s) = 1 \<and> length (length_l s) = 1
     \<and> length (ref_len s) = 1)"

definition no_row :: "scan \<Rightarrow> bool" where
  "no_row s = (isos s = [] \<and> scores s = [] \<and> ids s = [] \<and> files s = [] \<and> cov s = []
     \<and> length_l s = [] \<and> ref_len s = [] \<and> nogap_id s = [])"

text \<open>
  Example data: two reports that parse, one that \<open>AlignIO.read\<close> rejects and one of
  size zero; and, for the strings that occur in them, what \<open>float\<close> reads and what a
  float is printed as.
\<close>

definition ex_float :: "string \<Rightarrow> rat option" where
  "ex_float t = (if t = ''75.0'' then Some 75 else if t = ''100.0'' then Some 100
                 else if t = ''11.0'' then Some 11 else if t = ''10.0'' then Some 10 else None)"

definition ex_repr :: "rat \<Rightarrow> string" where
  "ex_repr x = (if x = 75 then ''75.0'' else if x = 100 then ''100.0''
                else if x = 1 then ''1.0'' else ''0.0'')"

definition ex_report1 :: report where
  "ex_report1 = \<lparr>st_size = 120, AlignIO_read = Inr [''ACGT'', ''ACGA''],
     report_lines = [''# Identity:       3/4 (75.0%)'' @ [CHR 0x0A], ''# Score: 11.0'' @ [CHR 0x0A],
                     ''a.trimmed  1 ACGT  4'' @ [CHR 0x0A]]\<rparr>"

definition ex_report2 :: report where
  "ex_report2 = \<lparr>st_size = 110, AlignIO_read = Inr [''AC'', ''AC''],
     report_lines = [''# Identity:       2/2 (100.0%)'' @ [CHR 0x0A], ''# Score: 10.0'' @ [CHR 0x0A],
                     ''a.trimmed  1 AC  2'' @ [CHR 0x0A]]\<rparr>"

definition ex_unreadable :: report where
  "ex_unreadable = \<lparr>st_size = 5, AlignIO_read = Inl AlignIOError, report_lines = [''junk'' @ [CHR 0x0A]]\<rparr>"

definition ex_empty :: report where
  "ex_empty = \<lparr>st_size = 0, AlignIO_read = Inl AlignIOError, report_lines = []\<rparr>"

definition ex_name1 :: string where "ex_name1 = ''A.Scaffold.trimmed_align.txt''"

definition ex_name2 :: string where "ex_name2 = ''B.Scaffold.trimmed_align.txt''"

definition holds :: "scan \<Rightarrow> scan list \<Rightarrow> bool" where
  "holds st cs =
     (isos st = map (\<lambda>s. hd (isos s)) cs \<and> scores st = map (\<lambda>s. hd (scores s)) cs
      \<and> ids st = map (\<lambda>s. hd (ids s)) cs \<and> files st = map (\<lambda>s. hd (files s)) cs
      \<and> cov st = map (\<lambda>s. hd (cov s)) cs \<and> length_l st = map (\<lambda>s. hd (length_l s)) cs
      \<and> ref_len st = map (\<lambda>s. hd (ref_len s)) cs)"

definition ex_dir_good :: directory where
  "ex_dir_good = [(ex_name1, ex_report1), (ex_name2, ex_report2)]"

definition ex_dir_mixed :: directory where
  "ex_dir_mixed = [(ex_name1, ex_report1), (ex_name2, ex_unreadable)]"

definition ex_dir_empty :: directory where
  "ex_dir_empty = [(ex_name1, ex_empty)]"

definition ex_fs :: "directory \<Rightarrow> filesystem" where
  "ex_fs dir = (\<lambda>path. if path = ''a/L'' then Some dir else None)"

definition ex_spades_A :: scan where
  "ex_spades_A = \<lparr>isos = [''A''], scores = [11], ids = [PyFloat 75], files = [''a/L/'' @ ex_name1],
          cov = [1], length_l = [4], ref_len = [4], nogap_id = [], aligned = True,
          ref_align_len = Some 4\<rparr>"

definition ex_spades_B :: scan where
  "ex_spades_B = \<lparr>isos = [''B''], scores = [10], ids = [PyFloat 100], files = [''a/L/'' @ ex_name2],
          cov = [1], length_l = [2], ref_len = [2], nogap_id = [], aligned = True,
          ref_align_len = Some 2\<rparr>"

definition ex_scaffold_A :: scan where
  "ex_scaffold_A = ex_spades_A\<lparr>nogap_id := [''75.00'']\<rparr>"

definition ex_scaffold_B :: scan where
  "ex_scaffold_B = ex_spades_B\<lparr>nogap_id := [''100.00'']\<rparr>"

definition ex_args :: args where
  "ex_args = \<lparr>align_path = ''a'', priority = [], best_only = ''yes'', assmb_type = ''SPAdes''\<rparr>"

definition ex_map_line :: "string \<Rightarrow> string" where
  "ex_map_line locus = locus @ tab @ ''contigs.fasta'' @ newline"




section \<open>Properties of the metric calculator\<close>

subsection \<open>Reference-covered length\<close>

lemma len_minus_lstrip: "len b - len (lstrip_gap b) = int (leading_gaps b)"
proof -
  have "length b = length (takeWhile (\<lambda>c. c = CHR ''-'') b) + length (dropWhile (\<lambda>c. c = CHR ''-'') b)"
    by (metis length_append takeWhile_dropWhile_id)
  then show ?thesis by (simp add: len_def lstrip_gap_def leading_gaps_def)
qed

lemma len_minus_rstrip: "len b - len (rstrip_gap b) = int (leading_gaps (rev b))"
proof -
  have "length (rev b) = length (takeWhile (\<lambda>c. c = CHR ''-'') (rev b)) + length (dropWhile (\<lambda>c. c = CHR ''-'') (rev b))"
    by (metis length_append takeWhile_dropWhile_id)
  then show ?thesis by (simp add: len_def rstrip_gap_def leading_gaps_def)
qed

lemma leading_gaps_pos: "s \<noteq> [] \<Longrightarrow> hd s = CHR ''-'' \<Longrightarrow> 0 < leading_gaps s"
  by (cases s) (simp_all add: leading_gaps_def)

lemma slice_from_nat: "slice_from s (int k) = drop k s"
  by (simp add: slice_from_def)

lemma slice_to_neg: "0 < k \<Longrightarrow> slice_to s (int k * (- 1)) = rev (drop k (rev s))"
proof -
  assume k: "0 < k"
  have "take (nat (int (length s) - int k)) s = take (length s - k) s"
    by (simp add: nat_diff_distrib')
  also have "\<dots> = rev (drop k (rev s))"
    by (simp add: rev_drop)
  finally show ?thesis using k by (simp add: slice_to_def)
qed

lemma first_char_nonempty: "s \<noteq> [] \<Longrightarrow> first_char s = Inr (hd s)"
  by (cases s) (simp_all add: first_char_def)

lemma last_char_nonempty: "s \<noteq> [] \<Longrightarrow> last_char s = Inr (last s)"
  by (simp add: last_char_def)

lemma slice_from_lstrip:
  "slice_from a (int (length b) - int (length (lstrip_gap b))) = drop (leading_gaps b) a"
  using len_minus_lstrip[of b] by (simp add: len_def slice_from_nat)

lemma slice_to_rstrip:
  assumes "b \<noteq> []" "last b = CHR ''-''"
  shows "slice_to s (int (length (rstrip_gap b)) - int (length b)) = rev (drop (leading_gaps (rev b)) (rev s))"
proof -
  have "hd (rev b) = last b" using assms by (simp add: hd_rev)
  then have pos: "0 < leading_gaps (rev b)"
    using leading_gaps_pos[of "rev b"] assms by simp
  have "int (length (rstrip_gap b)) - int (length b) = int (leading_gaps (rev b)) * (- 1)"
    using len_minus_rstrip[of b] by (simp add: len_def)
  then show ?thesis using slice_to_neg[OF pos] by simp
qed

lemma find_ref_len_nonempty:
  assumes "a \<noteq> []" "b \<noteq> []"
  shows "find_ref_len a b = Inr (int (spec_ref_covered_length a b))"
  using assms
  by (simp add: find_ref_len_def first_char_nonempty last_char_nonempty Let_def
        slice_from_lstrip slice_to_rstrip spec_ref_covered_length_def
        remove_gaps_def len_def)

lemma nongap_drop_le:
  "length (filter (\<lambda>c. c \<noteq> CHR ''-'') (drop k xs)) \<le> length (filter (\<lambda>c. c \<noteq> CHR ''-'') (xs::string))"
  by (metis append_take_drop_id filter_append length_append le_add2)

lemma nongap_rev_drop_le:
  "length (filter (\<lambda>c. c \<noteq> CHR ''-'') (rev (drop k (rev xs)))) \<le> length (filter (\<lambda>c. c \<noteq> CHR ''-'') (xs::string))"
  by (metis append_take_drop_id filter_append length_append le_add1 rev_drop rev_rev_ident)

lemma spec_ref_covered_length_le:
  "spec_ref_covered_length a b \<le> length (filter (\<lambda>c. c \<noteq> CHR ''-'') a)"
  unfolding spec_ref_covered_length_def Let_def
  using nongap_drop_le nongap_rev_drop_le order_trans[OF nongap_rev_drop_le nongap_drop_le]
  by auto

text \<open>
  C5, as the code has it. On the empty pair \<open>find_ref_len\<close> raises IndexError at
  \<open>a[0]\<close>, so the equation of the claim cannot hold there.
\<close>

theorem find_ref_len_empty_pair:
  "find_ref_len [] [] = Inl IndexError
   \<and> find_ref_len [] [] \<noteq> Inr (int (spec_ref_covered_length [] []))"
  by (simp add: find_ref_len_def first_char_def)

text \<open>
  C5, amended: for every pair of non-empty equal-length gap-padded sequences \<open>a\<close>
  (reference) and \<open>b\<close> (assembled), \<open>find_ref_len\<close> returns the length of \<open>a\<close> after
  removing from its start as many characters as the leading gap run of \<open>b\<close> when \<open>a\<close>
  starts with a base and \<open>b\<close> with a gap, the mirror image at the end, and all
  remaining gaps; \<open>a = "--ACGT--"\<close>, \<open>b = "XXACGTXX"\<close> gives 4.
\<close>

theorem find_ref_len_covered:
  "(length a = length b \<and> a \<noteq> [] \<longrightarrow>
      find_ref_len a b = Inr (int (spec_ref_covered_length a b)))
   \<and> find_ref_len ''--ACGT--'' ''XXACGTXX'' = Inr 4"
proof
  show "length a = length b \<and> a \<noteq> [] \<longrightarrow>
      find_ref_len a b = Inr (int (spec_ref_covered_length a b))"
  proof
    assume h: "length a = length b \<and> a \<noteq> []"
    then have "b \<noteq> []" by auto
    with h show "find_ref_len a b = Inr (int (spec_ref_covered_length a b))"
      by (simp add: find_ref_len_nonempty)
  qed
next
  have "find_ref_len ''--ACGT--'' ''XXACGTXX'' = Inr (int (spec_ref_covered_length ''--ACGT--'' ''XXACGTXX''))"
    by (rule find_ref_len_nonempty) simp_all
  then show "find_ref_len ''--ACGT--'' ''XXACGTXX'' = Inr 4"
    by (simp add: spec_ref_covered_length_def leading_gaps_def)
qed

theorem find_ref_len_covered_witness:
  "length ''ACGT-A'' = length ''--GTCA'' \<and> ''ACGT-A'' \<noteq> []
   \<and> find_ref_len ''ACGT-A'' ''--GTCA'' = Inr 3
   \<and> find_ref_len ''--ACGT--'' ''XXACGTXX'' = Inr 4"
  using find_ref_len_covered [of "''ACGT-A''" "''--GTCA''"]
  by (simp add: spec_ref_covered_length_def leading_gaps_def)

text \<open>
  C8: for non-empty \<open>a\<close> and \<open>b\<close>, \<open>find_ref_len\<close> returns an integer between 0 and
  the number of non-gap characters of \<open>a\<close>; on an empty \<open>a\<close> it raises IndexError
  (so it does on the empty pair of equal-length sequences).
\<close>

theorem find_ref_len_bounded:
  "(a \<noteq> [] \<and> b \<noteq> [] \<longrightarrow>
      (\<exists>n. find_ref_len a b = Inr n \<and> 0 \<le> n \<and> n \<le> len (remove_gaps a)))
   \<and> find_ref_len [] b = Inl IndexError"
proof
  show "a \<noteq> [] \<and> b \<noteq> [] \<longrightarrow>
      (\<exists>n. find_ref_len a b = Inr n \<and> 0 \<le> n \<and> n \<le> len (remove_gaps a))"
    using spec_ref_covered_length_le [of a b]
    by (auto simp add: find_ref_len_nonempty len_def remove_gaps_def)
next
  show "find_ref_len [] b = Inl IndexError"
    by (simp add: find_ref_len_def first_char_def)
qed

theorem find_ref_len_bounded_witness:
  "''ACGT-A'' \<noteq> [] \<and> ''--GTCA'' \<noteq> []
   \<and> (\<exists>n. find_ref_len ''ACGT-A'' ''--GTCA'' = Inr n \<and> 0 \<le> n \<and> n \<le> 5)
   \<and> find_ref_len [] ''--GTCA'' = Inl IndexError"
  using find_ref_len_bounded [of "''ACGT-A''" "''--GTCA''"]
  by (simp add: len_def remove_gaps_def)

section \<open>Properties of the scan\<close>

lemma merge_scan0_right [simp]: "merge st scan0 = st"
  by (simp add: merge_def scan0_def)

lemma merge_scan0_left [simp]: "merge scan0 s = s"
  by (cases "ref_align_len s") (simp_all add: merge_def scan0_def)

lemma merge_assoc: "merge (merge st s) t = merge st (merge s t)"
  by (simp add: merge_def split: option.splits)

lemma append_candidate_merge:
  assumes "ref_align_len t \<noteq> None \<or> b = []"
  shows "append_candidate fl (merge st t) isolate path rep a b
         = map_sum id (merge st) (append_candidate fl t isolate path rep a b)"
proof (cases "b = []")
  case True
  then show ?thesis
    by (simp add: append_candidate_def int_truediv_def len_def split: sum.splits)
next
  case False
  with assms obtain r where r: "ref_align_len t = Some r" by auto
  show ?thesis
    by (simp add: append_candidate_def r merge_def split: sum.splits)
qed

lemma spades_sequences_b:
  "(b \<noteq> [] \<longrightarrow> a \<noteq> []) \<Longrightarrow> snd (spades_sequences seqs (a, b)) \<noteq> [] \<Longrightarrow> fst (spades_sequences seqs (a, b)) \<noteq> []"
  by (induction seqs arbitrary: a b) (auto split: if_splits)

lemma merge_upd_aligned: "(merge st t)\<lparr>aligned := True\<rparr> = merge st (t\<lparr>aligned := True\<rparr>)"
  by (simp add: merge_def)

lemma merge_upd_ral: "(merge st t)\<lparr>ref_align_len := Some r\<rparr> = merge st (t\<lparr>ref_align_len := Some r\<rparr>)"
  by (simp add: merge_def)

lemma spades_file_merge:
  "spades_file fl d p (merge st t) c = map_sum id (merge st) (spades_file fl d p t c)"
proof -
  obtain a b where ab: "spades_sequences (projr (AlignIO_read (snd c))) ([], []) = (a, b)"
    by (cases "spades_sequences (projr (AlignIO_read (snd c))) ([], [])") auto
  have b: "\<not> (a \<noteq> [] \<and> b \<noteq> []) \<Longrightarrow> b = []"
    using spades_sequences_b[of "[]" "[]" "projr (AlignIO_read (snd c))"] ab by auto
  show ?thesis
    using ab b
    by (auto simp add: spades_file_def Let_def merge_upd_aligned merge_upd_ral append_candidate_merge
        split: sum.splits)
qed

lemma spades_file_alone:
  "spades_file fl d p st c = map_sum id (merge st) (spades_file fl d p scan0 c)"
  using spades_file_merge[of fl d p st scan0 c] by simp

lemma merge_upd_fired:
  "(merge st t)\<lparr>ref_align_len := Some r, nogap_id := nogap_id (merge st t) @ [x]\<rparr>
   = merge st (t\<lparr>ref_align_len := Some r, nogap_id := nogap_id t @ [x]\<rparr>)"
  by (simp add: merge_def)

lemma scaffold_sequences_merge:
  "scaffold_sequences seqs (a, b, merge st t)
   = map_sum id (\<lambda>(a', b', t'). (a', b', merge st t')) (scaffold_sequences seqs (a, b, t))"
proof (induction seqs arbitrary: a b t)
  case Nil
  then show ?case by simp
next
  case (Cons s seqs)
  show ?case
    by (simp add: Let_def merge_upd_fired Cons.IH split: sum.splits)
qed

lemma scaffold_sequences_fired:
  "scaffold_sequences seqs (a, b, t) = Inr (a', b', t') \<Longrightarrow> b = [] \<or> ref_align_len t \<noteq> None
   \<Longrightarrow> b' = [] \<or> ref_align_len t' \<noteq> None"
proof (induction seqs arbitrary: a b t)
  case Nil
  then show ?case by simp
next
  case (Cons s seqs)
  show ?case
  proof (cases "(if a = [] then s else a) \<noteq> [] \<and> (if a = [] then b else s) \<noteq> []")
    case True
    with Cons.prems(1) obtain r x where
      "scaffold_sequences seqs (remove_gaps (if a = [] then s else a), remove_gaps (if a = [] then b else s),
          t\<lparr>ref_align_len := Some r, nogap_id := nogap_id t @ [x]\<rparr>) = Inr (a', b', t')"
      by (auto simp add: Let_def split: sum.splits if_splits)
    from Cons.IH[OF this] show ?thesis by simp
  next
    case False
    with Cons.prems(1) have
      step: "scaffold_sequences seqs (if a = [] then s else a, if a = [] then b else s, t) = Inr (a', b', t')"
      by (auto simp add: Let_def split: sum.splits if_splits)
    have "(if a = [] then b else s) = [] \<or> ref_align_len t \<noteq> None"
      using False Cons.prems(2) by (auto split: if_splits)
    from Cons.IH[OF step this] show ?thesis .
  qed
qed

lemma scaffold_file_merge:
  "scaffold_file fl d p (merge st t) c = map_sum id (merge st) (scaffold_file fl d p t c)"
proof (cases "scaffold_sequences (projr (AlignIO_read (snd c))) ([], [], t\<lparr>aligned := True\<rparr>)")
  case (Inl e)
  then show ?thesis
    by (auto simp add: scaffold_file_def Let_def merge_upd_aligned scaffold_sequences_merge
        split: sum.splits)
next
  case (Inr r)
  obtain a' b' t' where r: "r = (a', b', t')" by (cases r) auto
  have "b' = [] \<or> ref_align_len t' \<noteq> None"
    using scaffold_sequences_fired[OF Inr[unfolded r]] by simp
  then show ?thesis
    using Inr r
    by (auto simp add: scaffold_file_def Let_def merge_upd_aligned scaffold_sequences_merge
        append_candidate_merge split: sum.splits)
qed

lemma scaffold_file_alone:
  "scaffold_file fl d p st c = map_sum id (merge st) (scaffold_file fl d p scan0 c)"
  using scaffold_file_merge[of fl d p st scan0 c] by simp

lemma scan_dir_alone:
  assumes body: "\<And>st c. body st c = map_sum id (merge st) (body scan0 c)"
  shows "scan_dir body cs st = map_sum id (merge st) (scan_dir body cs scan0)"
proof (induction cs arbitrary: st)
  case Nil
  then show ?case by simp
next
  case (Cons c cs)
  show ?case
  proof (cases "body scan0 c")
    case (Inl e)
    then show ?thesis using body[of st c] by simp
  next
    case (Inr s)
    have 1: "body st c = Inr (merge st s)" using body[of st c] Inr by simp
    have 2: "scan_dir body cs (merge st s) = map_sum id (merge (merge st s)) (scan_dir body cs scan0)"
      by (rule Cons.IH)
    have 3: "scan_dir body cs s = map_sum id (merge s) (scan_dir body cs scan0)"
      by (rule Cons.IH)
    show ?thesis
      by (cases "scan_dir body cs scan0") (simp_all add: 1 2 3 Inr merge_assoc)
  qed
qed

lemma foldl_max_key:
  fixes f :: "'a \<Rightarrow> 'b::linorder"
  shows "foldl (\<lambda>m y. if f m < f y then y else m) x xs \<in> set (x # xs)
         \<and> (\<forall>y\<in>set (x # xs). f y \<le> f (foldl (\<lambda>m y. if f m < f y then y else m) x xs))"
proof (induction xs arbitrary: x)
  case Nil
  show ?case by simp
next
  case (Cons z zs)
  show ?case
  proof (cases "f x < f z")
    case True
    with Cons.IH[of z] show ?thesis by auto
  next
    case False
    with Cons.IH[of x] show ?thesis by (auto simp: not_less intro: order_trans)
  qed
qed

lemma py_index_first:
  "\<exists>x\<in>set xs. eq x v \<Longrightarrow>
   \<exists>k. py_index eq xs v = Inr k \<and> k < length xs \<and> eq (xs ! k) v \<and> (\<forall>j<k. \<not> eq (xs ! j) v)"
proof (induction xs)
  case Nil
  then show ?case by simp
next
  case (Cons x xs)
  show ?case
  proof (cases "eq x v")
    case True
    then show ?thesis by simp
  next
    case False
    with Cons.prems have "\<exists>x\<in>set xs. eq x v" by auto
    from Cons.IH[OF this] obtain k where
      k: "py_index eq xs v = Inr k" "k < length xs" "eq (xs ! k) v" "\<forall>j<k. \<not> eq (xs ! j) v"
      by blast
    have "\<forall>j<Suc k. \<not> eq ((x # xs) ! j) v"
      using False k(4) by (auto simp: less_Suc_eq_0_disj)
    with k False show ?thesis by simp
  qed
qed

lemma py_argmax:
  fixes f :: "'a \<Rightarrow> 'b::linorder"
  assumes "xs \<noteq> []"
  shows "\<exists>m k. py_max (\<lambda>x y. f x < f y) xs = Inr m
            \<and> py_index (\<lambda>x y. f x = f y) xs m = Inr k \<and> k < length xs
            \<and> (\<forall>j<length xs. f (xs ! j) \<le> f (xs ! k))
            \<and> (\<forall>j<k. f (xs ! j) < f (xs ! k))"
proof -
  obtain x ys where xs: "xs = x # ys" using assms by (cases xs) auto
  define m where "m = foldl (\<lambda>m y. if f m < f y then y else m) x ys"
  have m: "py_max (\<lambda>x y. f x < f y) xs = Inr m" by (simp add: xs m_def)
  have mem: "m \<in> set xs" and top: "\<forall>y\<in>set xs. f y \<le> f m"
    using foldl_max_key[of f x ys] by (simp_all add: xs m_def)
  from mem have "\<exists>y\<in>set xs. f y = f m" by blast
  from py_index_first[of xs "\<lambda>x y. f x = f y" m, OF this] obtain k where
    k: "py_index (\<lambda>x y. f x = f y) xs m = Inr k" "k < length xs" "f (xs ! k) = f m"
       "\<forall>j<k. f (xs ! j) \<noteq> f m"
    by blast
  have a: "\<forall>j<length xs. f (xs ! j) \<le> f (xs ! k)"
    using top k(3) by simp
  have b: "\<forall>j<k. f (xs ! j) < f (xs ! k)"
  proof (intro allI impI)
    fix j assume "j < k"
    then have "f (xs ! j) \<noteq> f m" "f (xs ! j) \<le> f m" using k(2,4) top by auto
    then show "f (xs ! j) < f (xs ! k)" using k(3) by simp
  qed
  from m k(1,2) a b show ?thesis by blast
qed

lemma num_less_key: "num_less = (\<lambda>x y. num_val x < num_val y)"
  by (intro ext) (simp add: num_less_def)

lemma num_equal_key: "num_equal = (\<lambda>x y. num_val x = num_val y)"
  by (intro ext) (simp add: num_equal_def)

lemma str_less_key: "str_less = (\<lambda>x y. id x < id y)"
  by (intro ext) (simp add: str_less_def)

lemma str_equal_key: "str_equal = (\<lambda>x y. id x = id y)"
  by (intro ext) (simp add: str_equal_def)

lemma append_candidate_row:
  "append_candidate fl t isolate path rep a b = Inr s \<Longrightarrow> no_row t \<Longrightarrow>
   one_row s \<and> nogap_id s = nogap_id t \<and> aligned s = aligned t"
  by (auto simp add: append_candidate_def one_row_def no_row_def split: sum.splits option.splits)

lemma spades_file_shape:
  assumes "spades_file fl d p scan0 c = Inr s"
  shows "(no_row s \<and> \<not> aligned s) \<or> (one_row s \<and> nogap_id s = [] \<and> aligned s)"
proof -
  have n0: "no_row scan0" "\<not> aligned scan0" by (simp_all add: no_row_def scan0_def)
  have n1: "\<And>r. no_row (scan0\<lparr>aligned := True, ref_align_len := Some r\<rparr>)" "no_row (scan0\<lparr>aligned := True\<rparr>)"
    by (simp_all add: no_row_def scan0_def)
  have g: "\<And>r. nogap_id (scan0\<lparr>aligned := True, ref_align_len := Some r\<rparr>) = []"
     "nogap_id (scan0\<lparr>aligned := True\<rparr>) = []"
    by (simp_all add: scan0_def)
  show ?thesis
    using assms n0
    by (auto simp add: spades_file_def Let_def split: if_splits sum.splits
        dest!: append_candidate_row[OF _ n1(1)] append_candidate_row[OF _ n1(2)] simp: g)
qed

lemma scaffold_sequences_result:
  "scaffold_sequences seqs (a, b, t) = Inr (a', b', t') \<Longrightarrow>
   \<exists>r xs. t' = t\<lparr>ref_align_len := r, nogap_id := nogap_id t @ xs\<rparr> \<and> (b = [] \<longrightarrow> b' \<noteq> [] \<longrightarrow> xs \<noteq> [])"
proof (induction seqs arbitrary: a b t)
  case Nil
  then have "t' = t\<lparr>ref_align_len := ref_align_len t, nogap_id := nogap_id t @ []\<rparr>" "b' = b" by simp_all
  then show ?case by blast
next
  case (Cons s seqs)
  show ?case
  proof (cases "(if a = [] then s else a) \<noteq> [] \<and> (if a = [] then b else s) \<noteq> []")
    case True
    with Cons.prems(1) obtain r x where
      "scaffold_sequences seqs (remove_gaps (if a = [] then s else a), remove_gaps (if a = [] then b else s),
          t\<lparr>ref_align_len := Some r, nogap_id := nogap_id t @ [x]\<rparr>) = Inr (a', b', t')"
      by (auto simp add: Let_def split: sum.splits if_splits)
    from Cons.IH[OF this] obtain r' xs where
      "t' = t\<lparr>ref_align_len := Some r, nogap_id := nogap_id t @ [x]\<rparr>\<lparr>ref_align_len := r',
            nogap_id := nogap_id (t\<lparr>ref_align_len := Some r, nogap_id := nogap_id t @ [x]\<rparr>) @ xs\<rparr>"
      by blast
    then have "t' = t\<lparr>ref_align_len := r', nogap_id := nogap_id t @ (x # xs)\<rparr>" by simp
    then show ?thesis by blast
  next
    case False
    with Cons.prems(1) have
      step: "scaffold_sequences seqs (if a = [] then s else a, if a = [] then b else s, t) = Inr (a', b', t')"
      by (auto simp add: Let_def split: sum.splits if_splits)
    have "b = [] \<Longrightarrow> (if a = [] then b else s) = []"
      using False by (auto split: if_splits)
    with Cons.IH[OF step] show ?thesis by blast
  qed
qed

lemma scaffold_sequences_two:
  "scaffold_sequences [s1, s2] ([], [], t) = Inr (a', b', t') \<Longrightarrow>
   length (nogap_id t') \<le> Suc (length (nogap_id t))"
  by (auto simp add: Let_def split: sum.splits if_splits)

lemma scaffold_file_shape:
  assumes "scaffold_file fl d p scan0 c = Inr s"
  shows "no_row s \<or> (one_row s \<and> aligned s \<and> 1 \<le> length (nogap_id s)
            \<and> (two_sequences c \<longrightarrow> length (nogap_id s) = 1))"
proof (cases "files s = []")
  case True
  have n0: "no_row scan0" "no_row (scan0\<lparr>aligned := True\<rparr>)" by (simp_all add: no_row_def scan0_def)
  have "s = scan0 \<or> s = scan0\<lparr>aligned := True\<rparr>"
    using assms True
    by (auto simp add: scaffold_file_def Let_def append_candidate_def split: if_splits sum.splits option.splits)
  then show ?thesis using n0 by auto
next
  case False
  from assms False obtain seqs a' b' t' where
    rd: "AlignIO_read (snd c) = Inr seqs" and
    sq: "scaffold_sequences seqs ([], [], scan0\<lparr>aligned := True\<rparr>) = Inr (a', b', t')" and
    ap: "append_candidate fl t' (split_first (CHR ''.'') (fst c)) (d @ ''/'' @ fst c) (snd c) a' b' = Inr s"
    by (auto simp add: scaffold_file_def Let_def scan0_def split: if_splits sum.splits)
  from scaffold_sequences_result[OF sq] obtain r xs where
    t': "t' = scan0\<lparr>aligned := True\<rparr>\<lparr>ref_align_len := r, nogap_id := nogap_id (scan0\<lparr>aligned := True\<rparr>) @ xs\<rparr>"
    and xs: "b' \<noteq> [] \<longrightarrow> xs \<noteq> []" by blast
  have b': "b' \<noteq> []"
    using ap by (auto simp add: append_candidate_def int_truediv_def len_def split: sum.splits if_splits)
  have s_eq: "isos s = [split_first (CHR ''.'') (fst c)]" "length (scores s) = 1" "length (ids s) = 1"
     "length (files s) = 1" "length (cov s) = 1" "length (length_l s) = 1" "length (ref_len s) = 1"
     "nogap_id s = xs" "aligned s"
    using ap by (auto simp add: append_candidate_def t' scan0_def split: sum.splits option.splits)
  have two: "two_sequences c \<Longrightarrow> length xs \<le> 1"
  proof -
    assume "two_sequences c"
    then obtain s1 s2 where "seqs = [s1, s2]"
      using rd by (auto simp add: two_sequences_def length_Suc_conv numeral_2_eq_2)
    with sq have "length (nogap_id t') \<le> Suc (length (nogap_id (scan0\<lparr>aligned := True\<rparr>)))"
      using scaffold_sequences_two by blast
    then show ?thesis by (simp add: t' scan0_def)
  qed
  have "1 \<le> length xs" using xs b' by (cases xs) auto
  with two s_eq show ?thesis by (auto simp add: one_row_def)
qed

lemma scan_dir_ok:
  assumes body: "\<And>st c. body st c = map_sum id (merge st) (body scan0 c)"
  shows "\<forall>c\<in>set cs. \<not> isl (body scan0 c) \<Longrightarrow>
         scan_dir body cs scan0 = Inr (foldr merge (map (\<lambda>c. projr (body scan0 c)) cs) scan0)"
proof (induction cs)
  case Nil
  then show ?case by simp
next
  case (Cons c cs)
  then obtain s where s: "body scan0 c = Inr s" by (cases "body scan0 c") auto
  have "scan_dir body cs s = map_sum id (merge s) (scan_dir body cs scan0)"
    by (rule scan_dir_alone[OF body])
  with Cons s show ?case by simp
qed

lemma scan_dir_raises:
  assumes body: "\<And>st c. body st c = map_sum id (merge st) (body scan0 c)"
  shows "\<exists>c\<in>set cs. isl (body scan0 c) \<Longrightarrow> isl (scan_dir body cs scan0)"
proof (induction cs)
  case Nil
  then show ?case by simp
next
  case (Cons c cs)
  show ?case
  proof (cases "body scan0 c")
    case (Inl e)
    then show ?thesis by simp
  next
    case (Inr s)
    with Cons.prems have "\<exists>c\<in>set cs. isl (body scan0 c)" by auto
    then have "isl (scan_dir body cs scan0)" by (rule Cons.IH)
    moreover have "scan_dir body cs s = map_sum id (merge s) (scan_dir body cs scan0)"
      by (rule scan_dir_alone[OF body])
    ultimately show ?thesis using Inr by (cases "scan_dir body cs scan0") simp_all
  qed
qed

lemma foldr_merge_fields:
  "isos (foldr merge ss scan0) = concat (map isos ss)"
  "scores (foldr merge ss scan0) = concat (map scores ss)"
  "ids (foldr merge ss scan0) = concat (map ids ss)"
  "files (foldr merge ss scan0) = concat (map files ss)"
  "cov (foldr merge ss scan0) = concat (map cov ss)"
  "length_l (foldr merge ss scan0) = concat (map length_l ss)"
  "ref_len (foldr merge ss scan0) = concat (map ref_len ss)"
  "nogap_id (foldr merge ss scan0) = concat (map nogap_id ss)"
  "aligned (foldr merge ss scan0) = (\<exists>s\<in>set ss. aligned s)"
  by (induction ss) (simp_all add: merge_def scan0_def)

lemma concat_rows:
  "\<forall>s\<in>set ss. (g s = [] \<and> files s = []) \<or> (length (g s) = 1 \<and> files s \<noteq> []) \<Longrightarrow>
   concat (map g ss) = map (\<lambda>s. hd (g s)) (filter (\<lambda>s. files s \<noteq> []) ss)"
proof (induction ss)
  case Nil
  then show ?case by simp
next
  case (Cons s ss)
  then have IH: "concat (map g ss) = map (\<lambda>s. hd (g s)) (filter (\<lambda>s. files s \<noteq> []) ss)" by simp
  from Cons.prems have "(g s = [] \<and> files s = []) \<or> (length (g s) = 1 \<and> files s \<noteq> [])" by simp
  then show ?case
  proof
    assume "g s = [] \<and> files s = []"
    then show ?thesis using IH by simp
  next
    assume h: "length (g s) = 1 \<and> files s \<noteq> []"
    then obtain x where "g s = [x]" by (cases "g s") auto
    then show ?thesis using IH h by simp
  qed
qed

lemma candidates_ok:
  "\<forall>c\<in>set cs. \<not> isl (body scan0 c) \<Longrightarrow>
   candidates body cs = filter (\<lambda>s. files s \<noteq> []) (map (\<lambda>c. projr (body scan0 c)) cs)"
proof (induction cs)
  case Nil
  then show ?case by (simp add: candidates_def)
next
  case (Cons c cs)
  then obtain s where s: "body scan0 c = Inr s" by (cases "body scan0 c") auto
  from Cons have "candidates body cs = filter (\<lambda>s. files s \<noteq> []) (map (\<lambda>c. projr (body scan0 c)) cs)"
    by simp
  then show ?case using s by (simp add: candidates_def valid_candidate_def)
qed

text \<open>The state after a scan in which no file raises, in terms of the candidates.\<close>

lemma scan_state:
  assumes body: "\<And>st c. body st c = map_sum id (merge st) (body scan0 c)"
    and shape: "\<And>c s. body scan0 c = Inr s \<Longrightarrow> no_row s \<or> one_row s"
    and ok: "\<forall>c\<in>set cs. \<not> isl (body scan0 c)"
  shows "\<exists>st. scan_dir body cs scan0 = Inr st
     \<and> isos st = map (\<lambda>s. hd (isos s)) (candidates body cs)
     \<and> scores st = map (\<lambda>s. hd (scores s)) (candidates body cs)
     \<and> ids st = map (\<lambda>s. hd (ids s)) (candidates body cs)
     \<and> files st = map (\<lambda>s. hd (files s)) (candidates body cs)
     \<and> cov st = map (\<lambda>s. hd (cov s)) (candidates body cs)
     \<and> length_l st = map (\<lambda>s. hd (length_l s)) (candidates body cs)
     \<and> ref_len st = map (\<lambda>s. hd (ref_len s)) (candidates body cs)
     \<and> nogap_id st = concat (map (\<lambda>c. nogap_id (projr (body scan0 c))) cs)
     \<and> aligned st = (\<exists>c\<in>set cs. aligned (projr (body scan0 c)))"
proof -
  define ss where "ss = map (\<lambda>c. projr (body scan0 c)) cs"
  have sh: "\<forall>s\<in>set ss. no_row s \<or> one_row s"
  proof
    fix s assume "s \<in> set ss"
    then obtain c where c: "c \<in> set cs" "s = projr (body scan0 c)" by (auto simp: ss_def)
    with ok have "body scan0 c = Inr s" by (cases "body scan0 c") auto
    then show "no_row s \<or> one_row s" by (rule shape)
  qed
  have st: "scan_dir body cs scan0 = Inr (foldr merge ss scan0)"
    unfolding ss_def by (rule scan_dir_ok[where body=body and cs=cs, OF body ok])
  have cands: "candidates body cs = filter (\<lambda>s. files s \<noteq> []) ss"
    unfolding ss_def by (rule candidates_ok[where body=body and cs=cs, OF ok])
  have r: "\<And>g. (\<And>s. no_row s \<Longrightarrow> g s = []) \<Longrightarrow> (\<And>s. one_row s \<Longrightarrow> length (g s) = 1) \<Longrightarrow>
      concat (map g ss) = map (\<lambda>s. hd (g s)) (candidates body cs)"
  proof -
    fix g :: "scan \<Rightarrow> 'x list"
    assume g0: "\<And>s. no_row s \<Longrightarrow> g s = []" and g1: "\<And>s. one_row s \<Longrightarrow> length (g s) = 1"
    have "\<forall>s\<in>set ss. (g s = [] \<and> files s = []) \<or> (length (g s) = 1 \<and> files s \<noteq> [])"
    proof
      fix s assume "s \<in> set ss"
      with sh have "no_row s \<or> one_row s" by blast
      then show "(g s = [] \<and> files s = []) \<or> (length (g s) = 1 \<and> files s \<noteq> [])"
      proof
        assume n: "no_row s"
        then have "files s = []" by (simp add: no_row_def)
        with g0[OF n] show ?thesis by simp
      next
        assume o: "one_row s"
        then have "files s \<noteq> []" by (auto simp add: one_row_def)
        with g1[OF o] show ?thesis by simp
      qed
    qed
    from concat_rows[OF this] show "concat (map g ss) = map (\<lambda>s. hd (g s)) (candidates body cs)"
      by (simp add: cands)
  qed
  have "nogap_id (foldr merge ss scan0) = concat (map (\<lambda>c. nogap_id (projr (body scan0 c))) cs)"
    by (simp add: foldr_merge_fields ss_def comp_def)
  moreover have "aligned (foldr merge ss scan0) = (\<exists>c\<in>set cs. aligned (projr (body scan0 c)))"
    by (simp add: foldr_merge_fields ss_def)
  moreover have "concat (map isos ss) = map (\<lambda>s. hd (isos s)) (candidates body cs)"
    by (rule r) (simp_all add: no_row_def one_row_def)
  moreover have "concat (map scores ss) = map (\<lambda>s. hd (scores s)) (candidates body cs)"
    by (rule r) (simp_all add: no_row_def one_row_def)
  moreover have "concat (map ids ss) = map (\<lambda>s. hd (ids s)) (candidates body cs)"
    by (rule r) (simp_all add: no_row_def one_row_def)
  moreover have "concat (map files ss) = map (\<lambda>s. hd (files s)) (candidates body cs)"
    by (rule r) (simp_all add: no_row_def one_row_def)
  moreover have "concat (map cov ss) = map (\<lambda>s. hd (cov s)) (candidates body cs)"
    by (rule r) (simp_all add: no_row_def one_row_def)
  moreover have "concat (map length_l ss) = map (\<lambda>s. hd (length_l s)) (candidates body cs)"
    by (rule r) (simp_all add: no_row_def one_row_def)
  moreover have "concat (map ref_len ss) = map (\<lambda>s. hd (ref_len s)) (candidates body cs)"
    by (rule r) (simp_all add: no_row_def one_row_def)
  ultimately show ?thesis
    using st by (simp add: foldr_merge_fields)
qed

lemma spades_shape': "spades_file fl d p scan0 c = Inr s \<Longrightarrow> no_row s \<or> one_row s"
  using spades_file_shape by blast

lemma scaffold_shape': "scaffold_file fl d p scan0 c = Inr s \<Longrightarrow> no_row s \<or> one_row s"
  using scaffold_file_shape by blast

lemma candidates_mem:
  "s \<in> set (candidates body cs) \<Longrightarrow> \<exists>c\<in>set cs. body scan0 c = Inr s \<and> files s \<noteq> []"
proof -
  assume "s \<in> set (candidates body cs)"
  then obtain r where r: "r \<in> set (map (body scan0) cs)" "valid_candidate r" "s = projr r"
    by (auto simp add: candidates_def)
  from r(2) obtain s' where s': "r = Inr s'" "files s' \<noteq> []"
    by (cases r) (auto simp add: valid_candidate_def)
  with r show ?thesis by auto
qed

lemma one_row_files: "one_row s \<Longrightarrow> files s \<noteq> []"
  by (auto simp add: one_row_def)

lemma no_row_files: "no_row s \<Longrightarrow> files s = []"
  by (simp add: no_row_def)

lemma spades_candidates_row:
  "s \<in> set (candidates (spades_file fl d p) cs) \<Longrightarrow> one_row s \<and> aligned s"
  using candidates_mem[of s "spades_file fl d p" cs] spades_file_shape[of fl d p _ s]
  by (auto simp add: no_row_def)

lemma scaffold_candidates_row:
  "s \<in> set (candidates (scaffold_file fl d p) cs) \<Longrightarrow> one_row s \<and> aligned s \<and> 1 \<le> length (nogap_id s)"
  using candidates_mem[of s "scaffold_file fl d p" cs] scaffold_file_shape[of fl d p _ s]
  by (auto simp add: no_row_def)

lemma subscript_map_hd:
  "k < length cs \<Longrightarrow> length (g (cs ! k)) = 1 \<Longrightarrow>
   subscript (map (\<lambda>s. hd (g s)) cs) k = subscript (g (cs ! k)) 0"
  by (cases "g (cs ! k)") (simp_all add: subscript_def)

lemma subscript_single: "length xs = 1 \<Longrightarrow> subscript xs 0 = Inr (hd xs)"
  by (cases xs) (simp_all add: subscript_def)

lemma spades_line_candidate:
  assumes "ids st = map (\<lambda>s. hd (ids s)) cs" "cov st = map (\<lambda>s. hd (cov s)) cs"
    "length_l st = map (\<lambda>s. hd (length_l s)) cs" "isos st = map (\<lambda>s. hd (isos s)) cs"
    "ref_len st = map (\<lambda>s. hd (ref_len s)) cs" "files st = map (\<lambda>s. hd (files s)) cs"
    "k < length cs" "one_row (cs ! k)"
  shows "spades_line rp st k = spades_line rp (cs ! k) 0 \<and> \<not> isl (spades_line rp (cs ! k) 0)"
  using assms
  by (simp add: spades_line_def subscript_map_hd subscript_single one_row_def)

lemma scaffold_line_candidate:
  assumes "ids st = map (\<lambda>s. hd (ids s)) cs" "cov st = map (\<lambda>s. hd (cov s)) cs"
    "length_l st = map (\<lambda>s. hd (length_l s)) cs" "isos st = map (\<lambda>s. hd (isos s)) cs"
    "ref_len st = map (\<lambda>s. hd (ref_len s)) cs" "files st = map (\<lambda>s. hd (files s)) cs"
    "nogap_id st = map (\<lambda>s. hd (nogap_id s)) cs"
    "k < length cs" "one_row (cs ! k)" "length (nogap_id (cs ! k)) = 1"
  shows "scaffold_line rp st k = scaffold_line rp (cs ! k) 0 \<and> \<not> isl (scaffold_line rp (cs ! k) 0)"
  using assms
  by (simp add: scaffold_line_def subscript_map_hd subscript_single one_row_def)

lemma put_all_ok:
  "\<forall>x\<in>set xs. \<not> isl (f x) \<Longrightarrow> put_all (map f xs) = (map (\<lambda>x. projr (f x)) xs, None)"
proof (induction xs)
  case Nil
  then show ?case by simp
next
  case (Cons x xs)
  then obtain m where "f x = Inr m" by (cases "f x") auto
  with Cons show ?case by simp
qed

lemma py_index_bound: "py_index eq xs v = Inr k \<Longrightarrow> k < length xs"
  by (induction xs arbitrary: k) (auto split: if_splits sum.splits)

lemma ex_binary64_1: "binary64 1 = 1" by code_simp

lemma ex_binary64_34: "binary64 (3 / 4) = 3 / 4" by code_simp

lemma ex_binary64_75: "binary64 75 = 75" by code_simp

lemma ex_binary64_100: "binary64 100 = 100" by code_simp

lemma ex_format_75: "format_2f 75 = ''75.00''" by code_simp

lemma ex_format_100: "format_2f 100 = ''100.00''" by code_simp

lemma ex_str_int_4: "str_int 4 = ''4''" by code_simp

lemma ex_str_int_2: "str_int 2 = ''2''" by code_simp

lemma ex_str_int_0: "str_int 0 = ''0''" by code_simp

lemma ex_exact1: "calculate_exact_alignment ''ACGT'' ''ACGA'' = Inr ''75.00''"
  by (simp add: calculate_exact_alignment_def int_truediv_def float_mul_def ex_binary64_34 ex_binary64_75 ex_format_75)

lemma ex_exact2: "calculate_exact_alignment ''AC'' ''AC'' = Inr ''100.00''"
  by (simp add: calculate_exact_alignment_def int_truediv_def float_mul_def ex_binary64_1 ex_binary64_100 ex_format_100)

lemmas regex_defs = identity_at_def score_at_def lit_def one_def many1_def opt_def at_end_def
  startswith_def isspace_def isdigit_def

lemma ex_parse1: "parse_alignment ex_float (report_lines ex_report1)
     = Inr \<lparr>stats_score = ScoreStr ''11.0'', stats_id = PyFloat 75\<rparr>"
  by (simp add: ex_report1_def parse_alignment_def stats0_def regex_defs ex_float_def)

lemma ex_parse2: "parse_alignment ex_float (report_lines ex_report2)
     = Inr \<lparr>stats_score = ScoreStr ''10.0'', stats_id = PyFloat 100\<rparr>"
  by (simp add: ex_report2_def parse_alignment_def stats0_def regex_defs ex_float_def)

lemma ex_name1_tests: "endswith ex_name1 ''.trimmed_align.txt''" "contains ex_name1 ''Scaffold''"
   "split_first (CHR ''.'') ex_name1 = ''A''"
  by (simp_all add: ex_name1_def endswith_def startswith_def split_first_def)

lemma ex_name2_tests: "endswith ex_name2 ''.trimmed_align.txt''" "contains ex_name2 ''Scaffold''"
   "split_first (CHR ''.'') ex_name2 = ''B''"
  by (simp_all add: ex_name2_def endswith_def startswith_def split_first_def)

lemma ex_ref_len1: "find_ref_len ''ACGT'' ''ACGA'' = Inr 4"
  by (simp add: find_ref_len_def first_char_def last_char_def remove_gaps_def len_def)

lemma ex_ref_len2: "find_ref_len ''AC'' ''AC'' = Inr 2"
  by (simp add: find_ref_len_def first_char_def last_char_def remove_gaps_def len_def)

lemma ex_report1_fields: "AlignIO_read ex_report1 = Inr [''ACGT'', ''ACGA'']" "st_size ex_report1 = 120"
  by (simp_all add: ex_report1_def)

lemma ex_report2_fields: "AlignIO_read ex_report2 = Inr [''AC'', ''AC'']" "st_size ex_report2 = 110"
  by (simp_all add: ex_report2_def)

lemma ex_spades1:
  "spades_file ex_float ''a/L'' [] scan0 (ex_name1, ex_report1)
   = Inr \<lparr>isos = [''A''], scores = [11], ids = [PyFloat 75], files = [''a/L/'' @ ex_name1],
          cov = [1], length_l = [4], ref_len = [4], nogap_id = [], aligned = True,
          ref_align_len = Some 4\<rparr>"
  by (simp add: spades_file_def ex_name1_tests ex_report1_fields Let_def append_candidate_def
      ex_parse1 ex_ref_len1 float_score_def ex_float_def int_truediv_def ex_binary64_1
      remove_gaps_def len_def scan0_def)

lemma ex_spades2:
  "spades_file ex_float ''a/L'' [] scan0 (ex_name2, ex_report2)
   = Inr \<lparr>isos = [''B''], scores = [10], ids = [PyFloat 100], files = [''a/L/'' @ ex_name2],
          cov = [1], length_l = [2], ref_len = [2], nogap_id = [], aligned = True,
          ref_align_len = Some 2\<rparr>"
  by (simp add: spades_file_def ex_name2_tests ex_report2_fields Let_def append_candidate_def
      ex_parse2 ex_ref_len2 float_score_def ex_float_def int_truediv_def ex_binary64_1
      remove_gaps_def len_def scan0_def)

lemma ex_scaffold1:
  "scaffold_file ex_float ''a/L'' [] scan0 (ex_name1, ex_report1)
   = Inr \<lparr>isos = [''A''], scores = [11], ids = [PyFloat 75], files = [''a/L/'' @ ex_name1],
          cov = [1], length_l = [4], ref_len = [4], nogap_id = [''75.00''], aligned = True,
          ref_align_len = Some 4\<rparr>"
  by (simp add: scaffold_file_def ex_name1_tests ex_report1_fields Let_def append_candidate_def
      ex_parse1 ex_ref_len1 ex_exact1 float_score_def ex_float_def int_truediv_def ex_binary64_1
      remove_gaps_def len_def scan0_def)

lemma ex_scaffold2:
  "scaffold_file ex_float ''a/L'' [] scan0 (ex_name2, ex_report2)
   = Inr \<lparr>isos = [''B''], scores = [10], ids = [PyFloat 100], files = [''a/L/'' @ ex_name2],
          cov = [1], length_l = [2], ref_len = [2], nogap_id = [''100.00''], aligned = True,
          ref_align_len = Some 2\<rparr>"
  by (simp add: scaffold_file_def ex_name2_tests ex_report2_fields Let_def append_candidate_def
      ex_parse2 ex_ref_len2 ex_exact2 float_score_def ex_float_def int_truediv_def ex_binary64_1
      remove_gaps_def len_def scan0_def)

lemma ex_unreadable_spades:
  "spades_file ex_float ''a/L'' [] scan0 (ex_name2, ex_unreadable) = Inl AlignIOError"
  by (simp add: spades_file_def ex_name2_tests Let_def ex_unreadable_def)

lemma ex_empty_scaffold:
  "scaffold_file ex_float ''a/L'' [] scan0 (ex_name1, ex_empty) = Inr (scan0\<lparr>aligned := True\<rparr>)"
  by (simp add: scaffold_file_def ex_name1_tests Let_def ex_empty_def)

lemma spades_aligned_iff:
  "spades_file fl d p scan0 c = Inr s \<Longrightarrow> aligned s = (files s \<noteq> [])"
  using spades_file_shape[of fl d p c s] by (auto simp add: no_row_def one_row_def)

lemma candidates_nonempty_iff:
  assumes ok: "\<forall>c\<in>set cs. \<not> isl (body scan0 c)"
  shows "(candidates body cs \<noteq> []) = (\<exists>c\<in>set cs. files (projr (body scan0 c)) \<noteq> [])"
  by (simp add: candidates_ok[where body=body and cs=cs, OF ok] filter_empty_conv)

lemma spades_scan:
  assumes ok: "\<forall>c\<in>set cs. \<not> isl (spades_file fl d p scan0 c)"
  shows "\<exists>st. scan_dir (spades_file fl d p) cs scan0 = Inr st
     \<and> isos st = map (\<lambda>s. hd (isos s)) (candidates (spades_file fl d p) cs)
     \<and> scores st = map (\<lambda>s. hd (scores s)) (candidates (spades_file fl d p) cs)
     \<and> ids st = map (\<lambda>s. hd (ids s)) (candidates (spades_file fl d p) cs)
     \<and> files st = map (\<lambda>s. hd (files s)) (candidates (spades_file fl d p) cs)
     \<and> cov st = map (\<lambda>s. hd (cov s)) (candidates (spades_file fl d p) cs)
     \<and> length_l st = map (\<lambda>s. hd (length_l s)) (candidates (spades_file fl d p) cs)
     \<and> ref_len st = map (\<lambda>s. hd (ref_len s)) (candidates (spades_file fl d p) cs)
     \<and> aligned st = (candidates (spades_file fl d p) cs \<noteq> [])"
proof -
  have al: "(\<exists>c\<in>set cs. aligned (projr (spades_file fl d p scan0 c)))
      = (\<exists>c\<in>set cs. files (projr (spades_file fl d p scan0 c)) \<noteq> [])"
  proof (rule bex_cong[OF refl])
    fix c assume "c \<in> set cs"
    with ok obtain s where s: "spades_file fl d p scan0 c = Inr s"
      by (cases "spades_file fl d p scan0 c") auto
    then show "aligned (projr (spades_file fl d p scan0 c)) = (files (projr (spades_file fl d p scan0 c)) \<noteq> [])"
      using spades_aligned_iff[OF s] by simp
  qed
  have shape: "\<And>c s. spades_file fl d p scan0 c = Inr s \<Longrightarrow> no_row s \<or> one_row s"
    by (rule spades_shape')
  have body: "\<And>st c. spades_file fl d p st c = map_sum id (merge st) (spades_file fl d p scan0 c)"
    by (rule spades_file_alone)
  have "\<exists>st. scan_dir (spades_file fl d p) cs scan0 = Inr st
     \<and> isos st = map (\<lambda>s. hd (isos s)) (candidates (spades_file fl d p) cs)
     \<and> scores st = map (\<lambda>s. hd (scores s)) (candidates (spades_file fl d p) cs)
     \<and> ids st = map (\<lambda>s. hd (ids s)) (candidates (spades_file fl d p) cs)
     \<and> files st = map (\<lambda>s. hd (files s)) (candidates (spades_file fl d p) cs)
     \<and> cov st = map (\<lambda>s. hd (cov s)) (candidates (spades_file fl d p) cs)
     \<and> length_l st = map (\<lambda>s. hd (length_l s)) (candidates (spades_file fl d p) cs)
     \<and> ref_len st = map (\<lambda>s. hd (ref_len s)) (candidates (spades_file fl d p) cs)
     \<and> nogap_id st = concat (map (\<lambda>c. nogap_id (projr (spades_file fl d p scan0 c))) cs)
     \<and> aligned st = (\<exists>c\<in>set cs. aligned (projr (spades_file fl d p scan0 c)))"
    using body shape ok by (rule scan_state)
  then obtain st where st: "scan_dir (spades_file fl d p) cs scan0 = Inr st"
     "isos st = map (\<lambda>s. hd (isos s)) (candidates (spades_file fl d p) cs)"
     "scores st = map (\<lambda>s. hd (scores s)) (candidates (spades_file fl d p) cs)"
     "ids st = map (\<lambda>s. hd (ids s)) (candidates (spades_file fl d p) cs)"
     "files st = map (\<lambda>s. hd (files s)) (candidates (spades_file fl d p) cs)"
     "cov st = map (\<lambda>s. hd (cov s)) (candidates (spades_file fl d p) cs)"
     "length_l st = map (\<lambda>s. hd (length_l s)) (candidates (spades_file fl d p) cs)"
     "ref_len st = map (\<lambda>s. hd (ref_len s)) (candidates (spades_file fl d p) cs)"
     "aligned st = (\<exists>c\<in>set cs. aligned (projr (spades_file fl d p scan0 c)))"
    by (elim exE conjE)
  have "aligned st = (candidates (spades_file fl d p) cs \<noteq> [])"
    using st(9) al candidates_nonempty_iff[where body="spades_file fl d p" and cs=cs, OF ok] by simp
  with st(1-8) show ?thesis by blast
qed

lemma concat_rows_ge:
  "\<forall>s\<in>set ss. files s \<noteq> [] \<longrightarrow> 1 \<le> length (g s) \<Longrightarrow>
   length (filter (\<lambda>s. files s \<noteq> []) ss) \<le> length (concat (map g ss))"
  by (induction ss) auto

lemma scaffold_scan:
  assumes ok: "\<forall>c\<in>set cs. \<not> isl (scaffold_file fl d p scan0 c)"
  shows "\<exists>st. scan_dir (scaffold_file fl d p) cs scan0 = Inr st
     \<and> isos st = map (\<lambda>s. hd (isos s)) (candidates (scaffold_file fl d p) cs)
     \<and> scores st = map (\<lambda>s. hd (scores s)) (candidates (scaffold_file fl d p) cs)
     \<and> ids st = map (\<lambda>s. hd (ids s)) (candidates (scaffold_file fl d p) cs)
     \<and> files st = map (\<lambda>s. hd (files s)) (candidates (scaffold_file fl d p) cs)
     \<and> cov st = map (\<lambda>s. hd (cov s)) (candidates (scaffold_file fl d p) cs)
     \<and> length_l st = map (\<lambda>s. hd (length_l s)) (candidates (scaffold_file fl d p) cs)
     \<and> ref_len st = map (\<lambda>s. hd (ref_len s)) (candidates (scaffold_file fl d p) cs)
     \<and> length (candidates (scaffold_file fl d p) cs) \<le> length (nogap_id st)
     \<and> ((\<forall>c\<in>set cs. two_sequences c) \<longrightarrow>
            nogap_id st = map (\<lambda>s. hd (nogap_id s)) (candidates (scaffold_file fl d p) cs))
     \<and> (candidates (scaffold_file fl d p) cs \<noteq> [] \<longrightarrow> aligned st)"
proof -
  define body where "body = scaffold_file fl d p"
  define ss where "ss = map (\<lambda>c. projr (body scan0 c)) cs"
  have ok': "\<forall>c\<in>set cs. \<not> isl (body scan0 c)" using ok by (simp add: body_def)
  have cands: "candidates body cs = filter (\<lambda>s. files s \<noteq> []) ss"
    unfolding ss_def by (rule candidates_ok[where body=body and cs=cs, OF ok'])
  have single: "\<And>c. c \<in> set cs \<Longrightarrow> body scan0 c = Inr (projr (body scan0 c))"
    using ok' by (metis sum.collapse(2))
  have ge: "\<forall>s\<in>set ss. files s \<noteq> [] \<longrightarrow> 1 \<le> length (nogap_id s)"
  proof
    fix s assume "s \<in> set ss"
    then obtain c where c: "c \<in> set cs" "s = projr (body scan0 c)" by (auto simp: ss_def)
    from scaffold_file_shape[OF single[OF c(1), unfolded body_def]]
    show "files s \<noteq> [] \<longrightarrow> 1 \<le> length (nogap_id s)"
      by (auto simp add: c(2) body_def no_row_def)
  qed
  have two: "\<forall>c\<in>set cs. two_sequences c \<Longrightarrow>
     \<forall>s\<in>set ss. (nogap_id s = [] \<and> files s = []) \<or> (length (nogap_id s) = 1 \<and> files s \<noteq> [])"
  proof
    fix s assume t: "\<forall>c\<in>set cs. two_sequences c" and "s \<in> set ss"
    then obtain c where c: "c \<in> set cs" "s = projr (body scan0 c)" by (auto simp: ss_def)
    from scaffold_file_shape[OF single[OF c(1), unfolded body_def]] t c(1)
    show "(nogap_id s = [] \<and> files s = []) \<or> (length (nogap_id s) = 1 \<and> files s \<noteq> [])"
      by (auto simp add: c(2) body_def no_row_def one_row_def)
  qed
  have al: "candidates body cs \<noteq> [] \<Longrightarrow> \<exists>c\<in>set cs. aligned (projr (body scan0 c))"
  proof -
    assume "candidates body cs \<noteq> []"
    then obtain s where s: "s \<in> set (candidates body cs)" by (cases "candidates body cs") auto
    from candidates_mem[OF s] obtain c where c: "c \<in> set cs" "body scan0 c = Inr s" by blast
    from scaffold_candidates_row[OF s[unfolded body_def]] have "aligned s" by simp
    with c have "aligned (projr (body scan0 c))" by simp
    with c(1) show ?thesis by blast
  qed
  have shape: "\<And>c s. body scan0 c = Inr s \<Longrightarrow> no_row s \<or> one_row s"
    unfolding body_def by (rule scaffold_shape')
  have law: "\<And>st c. body st c = map_sum id (merge st) (body scan0 c)"
    unfolding body_def by (rule scaffold_file_alone)
  have "\<exists>st. scan_dir body cs scan0 = Inr st
     \<and> isos st = map (\<lambda>s. hd (isos s)) (candidates body cs)
     \<and> scores st = map (\<lambda>s. hd (scores s)) (candidates body cs)
     \<and> ids st = map (\<lambda>s. hd (ids s)) (candidates body cs)
     \<and> files st = map (\<lambda>s. hd (files s)) (candidates body cs)
     \<and> cov st = map (\<lambda>s. hd (cov s)) (candidates body cs)
     \<and> length_l st = map (\<lambda>s. hd (length_l s)) (candidates body cs)
     \<and> ref_len st = map (\<lambda>s. hd (ref_len s)) (candidates body cs)
     \<and> nogap_id st = concat (map (\<lambda>c. nogap_id (projr (body scan0 c))) cs)
     \<and> aligned st = (\<exists>c\<in>set cs. aligned (projr (body scan0 c)))"
    using law shape ok' by (rule scan_state)
  then obtain st where st: "scan_dir body cs scan0 = Inr st"
     "isos st = map (\<lambda>s. hd (isos s)) (candidates body cs)"
     "scores st = map (\<lambda>s. hd (scores s)) (candidates body cs)"
     "ids st = map (\<lambda>s. hd (ids s)) (candidates body cs)"
     "files st = map (\<lambda>s. hd (files s)) (candidates body cs)"
     "cov st = map (\<lambda>s. hd (cov s)) (candidates body cs)"
     "length_l st = map (\<lambda>s. hd (length_l s)) (candidates body cs)"
     "ref_len st = map (\<lambda>s. hd (ref_len s)) (candidates body cs)"
     "nogap_id st = concat (map (\<lambda>c. nogap_id (projr (body scan0 c))) cs)"
     "aligned st = (\<exists>c\<in>set cs. aligned (projr (body scan0 c)))"
    by (elim exE conjE)
  have st9: "nogap_id st = concat (map nogap_id ss)"
    by (simp add: st(9) ss_def comp_def)
  have n1: "length (candidates body cs) \<le> length (nogap_id st)"
    using concat_rows_ge[OF ge] by (simp add: st9 cands)
  have n2: "(\<forall>c\<in>set cs. two_sequences c) \<longrightarrow> nogap_id st = map (\<lambda>s. hd (nogap_id s)) (candidates body cs)"
    using concat_rows[OF two] by (simp add: st9 cands)
  have n3: "candidates body cs \<noteq> [] \<longrightarrow> aligned st" using al st(10) by simp
  from st(1-8) n1 n2 n3 show ?thesis unfolding body_def by blast
qed

lemma spades_scan_holds:
  assumes ok: "\<forall>c\<in>set cs. \<not> isl (spades_file fl d p scan0 c)"
  shows "\<exists>st. scan_dir (spades_file fl d p) cs scan0 = Inr st
     \<and> holds st (candidates (spades_file fl d p) cs)
     \<and> aligned st = (candidates (spades_file fl d p) cs \<noteq> [])"
  using spades_scan[OF ok] unfolding holds_def by (elim exE conjE) (intro exI conjI)

lemma scaffold_scan_holds:
  assumes ok: "\<forall>c\<in>set cs. \<not> isl (scaffold_file fl d p scan0 c)"
  shows "\<exists>st. scan_dir (scaffold_file fl d p) cs scan0 = Inr st
     \<and> holds st (candidates (scaffold_file fl d p) cs)
     \<and> length (candidates (scaffold_file fl d p) cs) \<le> length (nogap_id st)
     \<and> ((\<forall>c\<in>set cs. two_sequences c) \<longrightarrow>
            nogap_id st = map (\<lambda>s. hd (nogap_id s)) (candidates (scaffold_file fl d p) cs))
     \<and> (candidates (scaffold_file fl d p) cs \<noteq> [] \<longrightarrow> aligned st)"
  using scaffold_scan[OF ok] unfolding holds_def by (elim exE conjE) (intro exI conjI)

lemma holds_length:
  "holds st cs \<Longrightarrow> length (isos st) = length cs \<and> length (scores st) = length cs
     \<and> length (ids st) = length cs \<and> length (files st) = length cs \<and> length (cov st) = length cs
     \<and> length (length_l st) = length cs \<and> length (ref_len st) = length cs"
  by (simp add: holds_def)

lemma holds_spades_line:
  "holds st cs \<Longrightarrow> k < length cs \<Longrightarrow> one_row (cs ! k) \<Longrightarrow>
   spades_line rp st k = spades_line rp (cs ! k) 0 \<and> \<not> isl (spades_line rp (cs ! k) 0)"
  unfolding holds_def by (intro spades_line_candidate) simp_all

lemma holds_scaffold_line:
  "holds st cs \<Longrightarrow> nogap_id st = map (\<lambda>s. hd (nogap_id s)) cs \<Longrightarrow> k < length cs \<Longrightarrow>
   one_row (cs ! k) \<Longrightarrow> length (nogap_id (cs ! k)) = 1 \<Longrightarrow>
   scaffold_line rp st k = scaffold_line rp (cs ! k) 0 \<and> \<not> isl (scaffold_line rp (cs ! k) 0)"
  unfolding holds_def by (intro scaffold_line_candidate) simp_all

lemma spades_best:
  assumes fsd: "fs d = Some entries"
    and ok: "\<forall>c\<in>set entries. \<not> isl (spades_file fl d p scan0 c)"
    and ne: "candidates (spades_file fl d p) entries \<noteq> []"
  shows "\<exists>k<length (candidates (spades_file fl d p) entries). \<exists>m.
      spades_worker fl rp fs d l p ''yes'' = ([m], None)
      \<and> spades_line rp (candidates (spades_file fl d p) entries ! k) 0 = Inr m
      \<and> (\<forall>j<length (candidates (spades_file fl d p) entries).
            identity_of (candidates (spades_file fl d p) entries ! j)
            \<le> identity_of (candidates (spades_file fl d p) entries ! k))
      \<and> (\<forall>j<k. identity_of (candidates (spades_file fl d p) entries ! j)
            < identity_of (candidates (spades_file fl d p) entries ! k))"
proof -
  define cands where "cands = candidates (spades_file fl d p) entries"
  from spades_scan_holds[OF ok] obtain st where
    st: "scan_dir (spades_file fl d p) entries scan0 = Inr st" and h: "holds st cands"
    and al: "aligned st = (cands \<noteq> [])"
    unfolding cands_def by blast
  have ids: "ids st = map (\<lambda>s. hd (ids s)) cands" using h by (simp add: holds_def)
  have "ids st \<noteq> []" using ne ids by (simp add: cands_def)
  from py_argmax[OF this, of num_val] obtain m k where
    mk: "py_max (\<lambda>x y. num_val x < num_val y) (ids st) = Inr m"
        "py_index (\<lambda>x y. num_val x = num_val y) (ids st) m = Inr k"
        "k < length (ids st)"
        "\<forall>j<length (ids st). num_val (ids st ! j) \<le> num_val (ids st ! k)"
        "\<forall>j<k. num_val (ids st ! j) < num_val (ids st ! k)"
    by blast
  have k: "k < length cands" using mk(3) ids by simp
  have row: "one_row (cands ! k)"
    using spades_candidates_row[of "cands ! k" fl d p entries] k by (simp add: cands_def)
  from holds_spades_line[OF h k row] have
    line: "spades_line rp st k = spades_line rp (cands ! k) 0" "\<not> isl (spades_line rp (cands ! k) 0)"
    by simp_all
  then obtain msg where msg: "spades_line rp (cands ! k) 0 = Inr msg"
    by (cases "spades_line rp (cands ! k) 0") auto
  have w: "spades_worker fl rp fs d l p ''yes'' = ([msg], None)"
    using al ne
    by (simp add: spades_worker_def fsd st num_less_key num_equal_key mk(1,2) line(1) msg
        flip: cands_def)
  have idj: "\<And>j. j < length cands \<Longrightarrow> num_val (ids st ! j) = identity_of (cands ! j)"
    by (simp add: ids identity_of_def)
  have o1: "\<forall>j<length cands. identity_of (cands ! j) \<le> identity_of (cands ! k)"
    using mk(4) idj k ids by (metis length_map)
  have o2: "\<forall>j<k. identity_of (cands ! j) < identity_of (cands ! k)"
    using mk(5) idj k by (metis less_trans)
  from k w msg o1 o2 show ?thesis unfolding cands_def by blast
qed

lemma scaffold_candidates_two:
  assumes "s \<in> set (candidates (scaffold_file fl d p) cs)" "\<forall>c\<in>set cs. two_sequences c"
  shows "length (nogap_id s) = 1"
proof -
  from candidates_mem[OF assms(1)] obtain c where
    c: "c \<in> set cs" "scaffold_file fl d p scan0 c = Inr s" "files s \<noteq> []" by blast
  from scaffold_file_shape[OF c(2)] c(1,3) assms(2) show ?thesis
    by (auto simp add: no_row_def)
qed

lemma scaffold_best:
  assumes fsd: "fs d = Some entries"
    and ok: "\<forall>c\<in>set entries. \<not> isl (scaffold_file fl d p scan0 c)"
    and two: "\<forall>c\<in>set entries. two_sequences c"
    and ne: "candidates (scaffold_file fl d p) entries \<noteq> []"
  shows "\<exists>k<length (candidates (scaffold_file fl d p) entries). \<exists>m.
      scaffold_worker fl rp fs d l p ''yes'' = ([m], None)
      \<and> scaffold_line rp (candidates (scaffold_file fl d p) entries ! k) 0 = Inr m"
proof -
  define cands where "cands = candidates (scaffold_file fl d p) entries"
  from scaffold_scan_holds[OF ok] two ne obtain st where
    st: "scan_dir (scaffold_file fl d p) entries scan0 = Inr st" and h: "holds st cands"
    and ng: "nogap_id st = map (\<lambda>s. hd (nogap_id s)) cands"
    and al: "aligned st"
    unfolding cands_def by blast
  have "nogap_id st \<noteq> []" using ne ng by (simp add: cands_def)
  from py_argmax[OF this, of id] obtain m k where
    mk: "py_max (\<lambda>x y. id x < id y) (nogap_id st) = Inr m"
        "py_index (\<lambda>x y. id x = id y) (nogap_id st) m = Inr k"
        "k < length (nogap_id st)"
    by blast
  have mk': "py_max str_less (nogap_id st) = Inr m" "py_index str_equal (nogap_id st) m = Inr k"
    using mk(1,2) by (simp_all add: str_less_key str_equal_key)
  have k: "k < length cands" using mk(3) ng by simp
  then have mem: "cands ! k \<in> set (candidates (scaffold_file fl d p) entries)"
    by (simp add: cands_def)
  have row: "one_row (cands ! k)" using scaffold_candidates_row[OF mem] by simp
  have one: "length (nogap_id (cands ! k)) = 1" using scaffold_candidates_two[OF mem two] .
  from holds_scaffold_line[OF h ng k row one] have
    line: "scaffold_line rp st k = scaffold_line rp (cands ! k) 0"
          "\<not> isl (scaffold_line rp (cands ! k) 0)"
    by simp_all
  then obtain msg where msg: "scaffold_line rp (cands ! k) 0 = Inr msg"
    by (cases "scaffold_line rp (cands ! k) 0") auto
  have w: "scaffold_worker fl rp fs d l p ''yes'' = ([msg], None)"
    using al
    by (simp add: scaffold_worker_def fsd st mk' line(1) msg)
  from k w msg show ?thesis unfolding cands_def by blast
qed

lemma put_all_upto:
  assumes "\<forall>x<n. \<not> isl (f x)"
  shows "\<exists>ms. put_all (map f [0..<n]) = (ms, None) \<and> length ms = n \<and> (\<forall>i<n. f i = Inr (ms ! i))"
proof -
  have "put_all (map f [0..<n]) = (map (\<lambda>x. projr (f x)) [0..<n], None)"
    using assms by (intro put_all_ok) simp
  moreover have "\<forall>i<n. f i = Inr (map (\<lambda>x. projr (f x)) [0..<n] ! i)"
    using assms by (simp del: upt_Suc)
  ultimately show ?thesis by (intro exI[of _ "map (\<lambda>x. projr (f x)) [0..<n]"]) simp
qed

lemma spades_all:
  assumes fsd: "fs d = Some entries"
    and ok: "\<forall>c\<in>set entries. \<not> isl (spades_file fl d p scan0 c)"
  shows "\<exists>ms. spades_worker fl rp fs d l p ''no'' = (ms, None)
      \<and> length ms = length (candidates (spades_file fl d p) entries)
      \<and> (\<forall>i<length (candidates (spades_file fl d p) entries).
            spades_line rp (candidates (spades_file fl d p) entries ! i) 0 = Inr (ms ! i))"
proof -
  define cands where "cands = candidates (spades_file fl d p) entries"
  from spades_scan_holds[OF ok] obtain st where
    st: "scan_dir (spades_file fl d p) entries scan0 = Inr st" and h: "holds st cands"
    and al: "aligned st = (cands \<noteq> [])"
    unfolding cands_def by blast
  have n: "length (files st) = length cands" using holds_length[OF h] by simp
  show ?thesis
  proof (cases "cands = []")
    case True
    then show ?thesis using al by (simp add: spades_worker_def fsd st flip: cands_def)
  next
    case False
    have lines: "\<And>i. i < length cands \<Longrightarrow>
        spades_line rp st i = spades_line rp (cands ! i) 0 \<and> \<not> isl (spades_line rp (cands ! i) 0)"
    proof -
      fix i assume i: "i < length cands"
      then have "cands ! i \<in> set (candidates (spades_file fl d p) entries)" by (simp add: cands_def)
      then have "one_row (cands ! i)" using spades_candidates_row by blast
      from holds_spades_line[OF h i this]
      show "spades_line rp st i = spades_line rp (cands ! i) 0 \<and> \<not> isl (spades_line rp (cands ! i) 0)" .
    qed
    then have "\<forall>x<length cands. \<not> isl (spades_line rp st x)" by simp
    from put_all_upto[OF this] obtain ms where
      ms: "put_all (map (spades_line rp st) [0..<length cands]) = (ms, None)" "length ms = length cands"
          "\<forall>i<length cands. spades_line rp st i = Inr (ms ! i)" by blast
    have w: "spades_worker fl rp fs d l p ''no'' = (ms, None)"
      using al False by (simp add: spades_worker_def fsd st n ms(1))
    have "\<forall>i<length cands. spades_line rp (cands ! i) 0 = Inr (ms ! i)"
      using ms(3) lines by simp
    with w ms(2) show ?thesis unfolding cands_def by blast
  qed
qed

lemma scaffold_all:
  assumes fsd: "fs d = Some entries"
    and ok: "\<forall>c\<in>set entries. \<not> isl (scaffold_file fl d p scan0 c)"
    and two: "\<forall>c\<in>set entries. two_sequences c"
  shows "\<exists>ms. scaffold_worker fl rp fs d l p ''no'' = (ms, None)
      \<and> length ms = length (candidates (scaffold_file fl d p) entries)
      \<and> (\<forall>i<length (candidates (scaffold_file fl d p) entries).
            scaffold_line rp (candidates (scaffold_file fl d p) entries ! i) 0 = Inr (ms ! i))"
proof -
  define cands where "cands = candidates (scaffold_file fl d p) entries"
  from scaffold_scan_holds[OF ok] two obtain st where
    st: "scan_dir (scaffold_file fl d p) entries scan0 = Inr st" and h: "holds st cands"
    and ng: "nogap_id st = map (\<lambda>s. hd (nogap_id s)) cands"
    and al: "cands \<noteq> [] \<longrightarrow> aligned st"
    unfolding cands_def by blast
  have n: "length (files st) = length cands" using holds_length[OF h] by simp
  have lines: "\<And>i. i < length cands \<Longrightarrow>
      scaffold_line rp st i = scaffold_line rp (cands ! i) 0 \<and> \<not> isl (scaffold_line rp (cands ! i) 0)"
  proof -
    fix i assume i: "i < length cands"
    then have mem: "cands ! i \<in> set (candidates (scaffold_file fl d p) entries)" by (simp add: cands_def)
    then have row: "one_row (cands ! i)" using scaffold_candidates_row by blast
    have one: "length (nogap_id (cands ! i)) = 1" using scaffold_candidates_two[OF mem two] .
    from holds_scaffold_line[OF h ng i row one]
    show "scaffold_line rp st i = scaffold_line rp (cands ! i) 0 \<and> \<not> isl (scaffold_line rp (cands ! i) 0)" .
  qed
  then have "\<forall>x<length cands. \<not> isl (scaffold_line rp st x)" by simp
  from put_all_upto[OF this] obtain ms where
    ms: "put_all (map (scaffold_line rp st) [0..<length cands]) = (ms, None)" "length ms = length cands"
        "\<forall>i<length cands. scaffold_line rp st i = Inr (ms ! i)" by blast
  have w: "scaffold_worker fl rp fs d l p ''no'' = (ms, None)"
  proof (cases "aligned st")
    case True
    then show ?thesis by (simp add: scaffold_worker_def fsd st n ms(1))
  next
    case False
    then have "cands = []" using al by auto
    with ms(2) have "ms = []" by simp
    with False show ?thesis by (simp add: scaffold_worker_def fsd st)
  qed
  have "\<forall>i<length cands. scaffold_line rp (cands ! i) 0 = Inr (ms ! i)"
    using ms(3) lines by simp
  with w ms(2) show ?thesis unfolding cands_def by blast
qed

lemma ex_alone:
  "spades_file ex_float ''a/L'' [] scan0 (ex_name1, ex_report1) = Inr ex_spades_A"
  "spades_file ex_float ''a/L'' [] scan0 (ex_name2, ex_report2) = Inr ex_spades_B"
  "scaffold_file ex_float ''a/L'' [] scan0 (ex_name1, ex_report1) = Inr ex_scaffold_A"
  "scaffold_file ex_float ''a/L'' [] scan0 (ex_name2, ex_report2) = Inr ex_scaffold_B"
  by (simp_all add: ex_spades1 ex_spades2 ex_scaffold1 ex_scaffold2 ex_spades_A_def ex_spades_B_def
      ex_scaffold_A_def ex_scaffold_B_def)

lemma ex_candidates_spades:
  "candidates (spades_file ex_float ''a/L'' []) ex_dir_good = [ex_spades_A, ex_spades_B]"
  by (simp add: candidates_def valid_candidate_def ex_dir_good_def ex_alone)
     (simp add: ex_spades_A_def ex_spades_B_def)

lemma ex_candidates_scaffold:
  "candidates (scaffold_file ex_float ''a/L'' []) ex_dir_good = [ex_scaffold_A, ex_scaffold_B]"
  by (simp add: candidates_def valid_candidate_def ex_dir_good_def ex_alone)
     (simp add: ex_scaffold_A_def ex_scaffold_B_def ex_spades_A_def ex_spades_B_def)

lemma ex_candidates_mixed:
  "candidates (spades_file ex_float ''a/L'' []) ex_dir_mixed = [ex_spades_A]"
  by (simp add: candidates_def valid_candidate_def ex_dir_mixed_def ex_alone ex_unreadable_spades)
     (simp add: ex_spades_A_def)

lemma ex_ok_spades: "\<forall>c\<in>set ex_dir_good. \<not> isl (spades_file ex_float ''a/L'' [] scan0 c)"
  by (simp add: ex_dir_good_def ex_alone)

lemma ex_ok_scaffold: "\<forall>c\<in>set ex_dir_good. \<not> isl (scaffold_file ex_float ''a/L'' [] scan0 c) \<and> two_sequences c"
  by (simp add: ex_dir_good_def ex_alone two_sequences_def ex_report1_fields ex_report2_fields)

lemma ex_scan_mixed:
  "scan_dir (spades_file ex_float ''a/L'' []) ex_dir_mixed scan0 = Inl AlignIOError"
proof -
  have "spades_file ex_float ''a/L'' [] ex_spades_A (ex_name2, ex_unreadable) = Inl AlignIOError"
    using spades_file_alone[of ex_float "''a/L''" "[]" ex_spades_A "(ex_name2, ex_unreadable)"]
    by (simp add: ex_unreadable_spades)
  then show ?thesis by (simp add: ex_dir_mixed_def ex_alone)
qed

lemma ex_mixed_worker:
  "spades_worker ex_float ex_repr (ex_fs ex_dir_mixed) ''a/L'' ''L'' [] bo = ([], Some AlignIOError)"
  by (simp add: spades_worker_def ex_fs_def ex_scan_mixed)

lemma ex_scan_scaffold_good:
  "scan_dir (scaffold_file ex_float ''a/L'' []) ex_dir_good scan0 = Inr (merge ex_scaffold_A ex_scaffold_B)"
proof -
  have "scaffold_file ex_float ''a/L'' [] ex_scaffold_A (ex_name2, ex_report2) = Inr (merge ex_scaffold_A ex_scaffold_B)"
    using scaffold_file_alone[of ex_float "''a/L''" "[]" ex_scaffold_A "(ex_name2, ex_report2)"]
    by (simp add: ex_alone)
  then show ?thesis by (simp add: ex_dir_good_def ex_alone)
qed

lemma ex_str_order: "\<not> str_less ''75.00'' ''100.00''"
  unfolding str_less_def by code_simp

lemma ex_scaffold_line_A:
  "scaffold_line ex_repr (merge ex_scaffold_A ex_scaffold_B) 0
   = Inr (''75.0'' @ tab @ ''1.0'' @ tab @ ''4'' @ tab @ ''A'' @ tab @ ''4'' @ tab @ ''a/L/'' @ ex_name1
          @ tab @ ''75.00'' @ newline)"
  by (simp add: scaffold_line_def subscript_def merge_def ex_scaffold_A_def ex_scaffold_B_def
      ex_spades_A_def ex_spades_B_def format_num_def ex_repr_def ex_str_int_4)

lemma ex_scaffold_worker_good:
  "scaffold_worker ex_float ex_repr (ex_fs ex_dir_good) ''a/L'' ''L'' [] ''yes''
   = ([''75.0'' @ tab @ ''1.0'' @ tab @ ''4'' @ tab @ ''A'' @ tab @ ''4'' @ tab @ ''a/L/'' @ ex_name1
          @ tab @ ''75.00'' @ newline], None)"
proof -
  have ng: "nogap_id (merge ex_scaffold_A ex_scaffold_B) = [''75.00'', ''100.00'']"
    and al: "aligned (merge ex_scaffold_A ex_scaffold_B)"
    by (simp_all add: merge_def ex_scaffold_A_def ex_scaffold_B_def ex_spades_A_def ex_spades_B_def)
  show ?thesis
    by (simp add: scaffold_worker_def ex_fs_def ex_scan_scaffold_good ng al ex_str_order
        str_equal_def ex_scaffold_line_A)
qed

section \<open>Selection policies\<close>

text \<open>A file that makes the loop body raise ends the worker before any record is emitted.\<close>

lemma spades_raises:
  assumes "fs d = Some entries" "\<exists>c\<in>set entries. isl (spades_file fl d p scan0 c)"
  shows "\<exists>e. spades_worker fl rp fs d l p bo = ([], Some e)"
proof -
  have body: "\<And>st c. spades_file fl d p st c = map_sum id (merge st) (spades_file fl d p scan0 c)"
    by (rule spades_file_alone)
  have "isl (scan_dir (spades_file fl d p) entries scan0)"
    using body assms(2) by (rule scan_dir_raises)
  then obtain e where "scan_dir (spades_file fl d p) entries scan0 = Inl e"
    by (cases "scan_dir (spades_file fl d p) entries scan0") auto
  with assms(1) show ?thesis by (simp add: spades_worker_def)
qed

lemma scaffold_raises:
  assumes "fs d = Some entries" "\<exists>c\<in>set entries. isl (scaffold_file fl d p scan0 c)"
  shows "\<exists>e. scaffold_worker fl rp fs d l p bo = ([], Some e)"
proof -
  have body: "\<And>st c. scaffold_file fl d p st c = map_sum id (merge st) (scaffold_file fl d p scan0 c)"
    by (rule scaffold_file_alone)
  have "isl (scan_dir (scaffold_file fl d p) entries scan0)"
    using body assms(2) by (rule scan_dir_raises)
  then obtain e where "scan_dir (scaffold_file fl d p) entries scan0 = Inl e"
    by (cases "scan_dir (scaffold_file fl d p) entries scan0") auto
  with assms(1) show ?thesis by (simp add: scaffold_worker_def)
qed

lemma ex_unreadable_scaffold:
  "scaffold_file ex_float ''a/L'' [] scan0 (ex_name2, ex_unreadable) = Inl AlignIOError"
  by (simp add: scaffold_file_def ex_name2_tests Let_def ex_unreadable_def)

lemma ex_raises_spades: "\<exists>c\<in>set ex_dir_mixed. isl (spades_file ex_float ''a/L'' [] scan0 c)"
  by (simp add: ex_dir_mixed_def ex_unreadable_spades)

lemma ex_raises_scaffold: "\<exists>c\<in>set ex_dir_mixed. isl (scaffold_file ex_float ''a/L'' [] scan0 c)"
  by (simp add: ex_dir_mixed_def ex_unreadable_scaffold)

lemma ex_fs_mixed: "ex_fs ex_dir_mixed ''a/L'' = Some ex_dir_mixed"
  by (simp add: ex_fs_def)

text \<open>
  C1, as the code has it. First, a Contig locus with one valid candidate and one report
  that \<open>AlignIO.read\<close> rejects: the exception ends the worker and no record is emitted.
  Second, a Scaffold locus with two valid candidates of gap-free identity \<open>75.00\<close> and
  \<open>100.00\<close>: \<open>max\<close> compares the formatted strings, and the record emitted is the one
  of \<open>75.00\<close>.
\<close>

theorem best_only_counterexample:
  "valid_candidate (spades_file ex_float ''a/L'' [] scan0 (ex_name1, ex_report1))
   \<and> spades_worker ex_float ex_repr (ex_fs ex_dir_mixed) ''a/L'' ''L'' [] ''yes'' = ([], Some AlignIOError)
   \<and> candidates (scaffold_file ex_float ''a/L'' []) ex_dir_good = [ex_scaffold_A, ex_scaffold_B]
   \<and> nogap_id ex_scaffold_A = [''75.00''] \<and> nogap_id ex_scaffold_B = [''100.00'']
   \<and> scaffold_worker ex_float ex_repr (ex_fs ex_dir_good) ''a/L'' ''L'' [] ''yes''
       = ([''75.0'' @ tab @ ''1.0'' @ tab @ ''4'' @ tab @ ''A'' @ tab @ ''4'' @ tab @ ''a/L/'' @ ex_name1
           @ tab @ ''75.00'' @ newline], None)"
proof -
  have "valid_candidate (spades_file ex_float ''a/L'' [] scan0 (ex_name1, ex_report1))"
    by (simp add: ex_alone valid_candidate_def ex_spades_A_def)
  moreover have "nogap_id ex_scaffold_A = [''75.00'']" "nogap_id ex_scaffold_B = [''100.00'']"
    by (simp_all add: ex_scaffold_A_def ex_scaffold_B_def)
  ultimately show ?thesis
    using ex_mixed_worker[of "''yes''"] ex_candidates_scaffold ex_scaffold_worker_good
    by (intro conjI)
qed

text \<open>
  C1, amended: for every locus whose directory can be listed, in which no file makes
  the worker raise, and which has at least one valid candidate, the worker emits
  exactly one record under \<open>best_only = 'yes'\<close>, and it is the record of one of the
  candidates. For the Contig kind it is the candidate whose reported percent identity
  is the maximum among the candidates, the first in scan order among equals. For the
  Scaffold kind (each report being an alignment of two sequences) the statement says
  only that it is the record of one of the candidates. A locus in which some file
  makes the worker raise has no record emitted: the worker ends in the exception.
\<close>

theorem best_only_selection:
  "fs d = Some entries \<Longrightarrow>
   ((\<forall>c\<in>set entries. \<not> isl (spades_file fl d p scan0 c))
      \<and> candidates (spades_file fl d p) entries \<noteq> [] \<longrightarrow>
    (\<exists>k<length (candidates (spades_file fl d p) entries). \<exists>m.
      spades_worker fl rp fs d l p ''yes'' = ([m], None)
      \<and> spades_line rp (candidates (spades_file fl d p) entries ! k) 0 = Inr m
      \<and> (\<forall>j<length (candidates (spades_file fl d p) entries).
            identity_of (candidates (spades_file fl d p) entries ! j)
            \<le> identity_of (candidates (spades_file fl d p) entries ! k))
      \<and> (\<forall>j<k. identity_of (candidates (spades_file fl d p) entries ! j)
            < identity_of (candidates (spades_file fl d p) entries ! k))))
   \<and> ((\<forall>c\<in>set entries. \<not> isl (scaffold_file fl d p scan0 c) \<and> two_sequences c)
      \<and> candidates (scaffold_file fl d p) entries \<noteq> [] \<longrightarrow>
    (\<exists>k<length (candidates (scaffold_file fl d p) entries). \<exists>m.
      scaffold_worker fl rp fs d l p ''yes'' = ([m], None)
      \<and> scaffold_line rp (candidates (scaffold_file fl d p) entries ! k) 0 = Inr m))
   \<and> ((\<exists>c\<in>set entries. isl (spades_file fl d p scan0 c)) \<longrightarrow>
    (\<exists>e. spades_worker fl rp fs d l p ''yes'' = ([], Some e)))
   \<and> ((\<exists>c\<in>set entries. isl (scaffold_file fl d p scan0 c)) \<longrightarrow>
    (\<exists>e. scaffold_worker fl rp fs d l p ''yes'' = ([], Some e)))"
proof (intro conjI impI)
  assume fsd: "fs d = Some entries"
    and h: "(\<forall>c\<in>set entries. \<not> isl (spades_file fl d p scan0 c))
      \<and> candidates (spades_file fl d p) entries \<noteq> []"
  from h have ok: "\<forall>c\<in>set entries. \<not> isl (spades_file fl d p scan0 c)"
    and ne: "candidates (spades_file fl d p) entries \<noteq> []" by simp_all
  show "\<exists>k<length (candidates (spades_file fl d p) entries). \<exists>m.
      spades_worker fl rp fs d l p ''yes'' = ([m], None)
      \<and> spades_line rp (candidates (spades_file fl d p) entries ! k) 0 = Inr m
      \<and> (\<forall>j<length (candidates (spades_file fl d p) entries).
            identity_of (candidates (spades_file fl d p) entries ! j)
            \<le> identity_of (candidates (spades_file fl d p) entries ! k))
      \<and> (\<forall>j<k. identity_of (candidates (spades_file fl d p) entries ! j)
            < identity_of (candidates (spades_file fl d p) entries ! k))"
    using fsd ok ne by (rule spades_best)
next
  assume fsd: "fs d = Some entries"
    and h: "(\<forall>c\<in>set entries. \<not> isl (scaffold_file fl d p scan0 c) \<and> two_sequences c)
      \<and> candidates (scaffold_file fl d p) entries \<noteq> []"
  from h have ok: "\<forall>c\<in>set entries. \<not> isl (scaffold_file fl d p scan0 c)"
    and two: "\<forall>c\<in>set entries. two_sequences c"
    and ne: "candidates (scaffold_file fl d p) entries \<noteq> []" by simp_all
  show "\<exists>k<length (candidates (scaffold_file fl d p) entries). \<exists>m.
      scaffold_worker fl rp fs d l p ''yes'' = ([m], None)
      \<and> scaffold_line rp (candidates (scaffold_file fl d p) entries ! k) 0 = Inr m"
    using fsd ok two ne by (rule scaffold_best)
next
  assume fsd: "fs d = Some entries"
    and r: "\<exists>c\<in>set entries. isl (spades_file fl d p scan0 c)"
  show "\<exists>e. spades_worker fl rp fs d l p ''yes'' = ([], Some e)"
    using fsd r by (rule spades_raises)
next
  assume fsd: "fs d = Some entries"
    and r: "\<exists>c\<in>set entries. isl (scaffold_file fl d p scan0 c)"
  show "\<exists>e. scaffold_worker fl rp fs d l p ''yes'' = ([], Some e)"
    using fsd r by (rule scaffold_raises)
qed

theorem best_only_selection_witness:
  "ex_fs ex_dir_good ''a/L'' = Some ex_dir_good
   \<and> list_all (\<lambda>c. \<not> isl (spades_file ex_float ''a/L'' [] scan0 c)) ex_dir_good
   \<and> candidates (spades_file ex_float ''a/L'' []) ex_dir_good = [ex_spades_A, ex_spades_B]
   \<and> list_all (\<lambda>c. \<not> isl (scaffold_file ex_float ''a/L'' [] scan0 c) \<and> two_sequences c) ex_dir_good
   \<and> candidates (scaffold_file ex_float ''a/L'' []) ex_dir_good = [ex_scaffold_A, ex_scaffold_B]
   \<and> (\<exists>k<length [ex_spades_A, ex_spades_B]. \<exists>m.
        spades_worker ex_float ex_repr (ex_fs ex_dir_good) ''a/L'' ''L'' [] ''yes'' = ([m], None)
        \<and> spades_line ex_repr ([ex_spades_A, ex_spades_B] ! k) 0 = Inr m
        \<and> (\<forall>j<length [ex_spades_A, ex_spades_B].
              identity_of ([ex_spades_A, ex_spades_B] ! j) \<le> identity_of ([ex_spades_A, ex_spades_B] ! k))
        \<and> (\<forall>j<k. identity_of ([ex_spades_A, ex_spades_B] ! j) < identity_of ([ex_spades_A, ex_spades_B] ! k)))
   \<and> (\<exists>k<length [ex_scaffold_A, ex_scaffold_B]. \<exists>m.
        scaffold_worker ex_float ex_repr (ex_fs ex_dir_good) ''a/L'' ''L'' [] ''yes'' = ([m], None)
        \<and> scaffold_line ex_repr ([ex_scaffold_A, ex_scaffold_B] ! k) 0 = Inr m)
   \<and> ex_fs ex_dir_mixed ''a/L'' = Some ex_dir_mixed
   \<and> (\<exists>c\<in>set ex_dir_mixed. isl (spades_file ex_float ''a/L'' [] scan0 c))
   \<and> (\<exists>e. spades_worker ex_float ex_repr (ex_fs ex_dir_mixed) ''a/L'' ''L'' [] ''yes'' = ([], Some e))
   \<and> (\<exists>c\<in>set ex_dir_mixed. isl (scaffold_file ex_float ''a/L'' [] scan0 c))
   \<and> (\<exists>e. scaffold_worker ex_float ex_repr (ex_fs ex_dir_mixed) ''a/L'' ''L'' [] ''yes'' = ([], Some e))"
proof -
  have fsd: "ex_fs ex_dir_good ''a/L'' = Some ex_dir_good" by (simp add: ex_fs_def)
  note t = best_only_selection[where fs="ex_fs ex_dir_good" and d="''a/L''" and entries=ex_dir_good
      and fl=ex_float and p="[]" and rp=ex_repr and l="''L''"]
  have ne1: "candidates (spades_file ex_float ''a/L'' []) ex_dir_good \<noteq> []"
    by (simp add: ex_candidates_spades)
  have ne2: "candidates (scaffold_file ex_float ''a/L'' []) ex_dir_good \<noteq> []"
    by (simp add: ex_candidates_scaffold)
  from t fsd ex_ok_spades ne1 have
    c1: "\<exists>k<length (candidates (spades_file ex_float ''a/L'' []) ex_dir_good). \<exists>m.
        spades_worker ex_float ex_repr (ex_fs ex_dir_good) ''a/L'' ''L'' [] ''yes'' = ([m], None)
        \<and> spades_line ex_repr (candidates (spades_file ex_float ''a/L'' []) ex_dir_good ! k) 0 = Inr m
        \<and> (\<forall>j<length (candidates (spades_file ex_float ''a/L'' []) ex_dir_good).
              identity_of (candidates (spades_file ex_float ''a/L'' []) ex_dir_good ! j)
              \<le> identity_of (candidates (spades_file ex_float ''a/L'' []) ex_dir_good ! k))
        \<and> (\<forall>j<k. identity_of (candidates (spades_file ex_float ''a/L'' []) ex_dir_good ! j)
              < identity_of (candidates (spades_file ex_float ''a/L'' []) ex_dir_good ! k))"
    by blast
  from t fsd ex_ok_scaffold ne2 have
    c2: "\<exists>k<length (candidates (scaffold_file ex_float ''a/L'' []) ex_dir_good). \<exists>m.
        scaffold_worker ex_float ex_repr (ex_fs ex_dir_good) ''a/L'' ''L'' [] ''yes'' = ([m], None)
        \<and> scaffold_line ex_repr (candidates (scaffold_file ex_float ''a/L'' []) ex_dir_good ! k) 0 = Inr m"
    by blast
  note u = best_only_selection[where fs="ex_fs ex_dir_mixed" and d="''a/L''" and entries=ex_dir_mixed
      and fl=ex_float and p="[]" and rp=ex_repr and l="''L''"]
  from u ex_fs_mixed ex_raises_spades have
    r1: "\<exists>e. spades_worker ex_float ex_repr (ex_fs ex_dir_mixed) ''a/L'' ''L'' [] ''yes'' = ([], Some e)"
    by blast
  from u ex_fs_mixed ex_raises_scaffold have
    r2: "\<exists>e. scaffold_worker ex_float ex_repr (ex_fs ex_dir_mixed) ''a/L'' ''L'' [] ''yes'' = ([], Some e)"
    by blast
  from fsd ex_ok_spades[folded list_all_iff] ex_candidates_spades
    ex_ok_scaffold[folded list_all_iff] ex_candidates_scaffold
    c1[unfolded ex_candidates_spades] c2[unfolded ex_candidates_scaffold]
    ex_fs_mixed ex_raises_spades r1 ex_raises_scaffold r2
  show ?thesis by (intro conjI)
qed

text \<open>
  C7, as the code has it: a Contig locus with one valid candidate file and one report
  that \<open>AlignIO.read\<close> rejects emits no record under \<open>best_only = 'no'\<close>.
\<close>

theorem all_policy_counterexample:
  "length (candidates (spades_file ex_float ''a/L'' []) ex_dir_mixed) = 1
   \<and> spades_worker ex_float ex_repr (ex_fs ex_dir_mixed) ''a/L'' ''L'' [] ''no'' = ([], Some AlignIOError)"
  using ex_mixed_worker[of "''no''"] by (simp add: ex_candidates_mixed)

text \<open>
  C7, amended: under \<open>best_only = 'no'\<close>, a locus whose directory can be listed and in
  which no file makes the worker raise (for the Scaffold kind, each report being an
  alignment of two sequences) yields exactly one record per valid candidate file, N
  records for N valid candidates, in the order the files were scanned. A locus in
  which some file makes the worker raise has no record emitted: the worker ends in
  the exception.
\<close>

theorem all_policy_records:
  "fs d = Some entries \<Longrightarrow>
   ((\<forall>c\<in>set entries. \<not> isl (spades_file fl d p scan0 c)) \<longrightarrow>
    (\<exists>ms. spades_worker fl rp fs d l p ''no'' = (ms, None)
      \<and> length ms = length (candidates (spades_file fl d p) entries)
      \<and> (\<forall>i<length (candidates (spades_file fl d p) entries).
            spades_line rp (candidates (spades_file fl d p) entries ! i) 0 = Inr (ms ! i))))
   \<and> ((\<forall>c\<in>set entries. \<not> isl (scaffold_file fl d p scan0 c) \<and> two_sequences c) \<longrightarrow>
    (\<exists>ms. scaffold_worker fl rp fs d l p ''no'' = (ms, None)
      \<and> length ms = length (candidates (scaffold_file fl d p) entries)
      \<and> (\<forall>i<length (candidates (scaffold_file fl d p) entries).
            scaffold_line rp (candidates (scaffold_file fl d p) entries ! i) 0 = Inr (ms ! i))))
   \<and> ((\<exists>c\<in>set entries. isl (spades_file fl d p scan0 c)) \<longrightarrow>
    (\<exists>e. spades_worker fl rp fs d l p ''no'' = ([], Some e)))
   \<and> ((\<exists>c\<in>set entries. isl (scaffold_file fl d p scan0 c)) \<longrightarrow>
    (\<exists>e. scaffold_worker fl rp fs d l p ''no'' = ([], Some e)))"
proof (intro conjI impI)
  assume fsd: "fs d = Some entries"
    and ok: "\<forall>c\<in>set entries. \<not> isl (spades_file fl d p scan0 c)"
  show "\<exists>ms. spades_worker fl rp fs d l p ''no'' = (ms, None)
      \<and> length ms = length (candidates (spades_file fl d p) entries)
      \<and> (\<forall>i<length (candidates (spades_file fl d p) entries).
            spades_line rp (candidates (spades_file fl d p) entries ! i) 0 = Inr (ms ! i))"
    using fsd ok by (rule spades_all)
next
  assume fsd: "fs d = Some entries"
    and h: "\<forall>c\<in>set entries. \<not> isl (scaffold_file fl d p scan0 c) \<and> two_sequences c"
  from h have ok: "\<forall>c\<in>set entries. \<not> isl (scaffold_file fl d p scan0 c)"
    and two: "\<forall>c\<in>set entries. two_sequences c" by simp_all
  show "\<exists>ms. scaffold_worker fl rp fs d l p ''no'' = (ms, None)
      \<and> length ms = length (candidates (scaffold_file fl d p) entries)
      \<and> (\<forall>i<length (candidates (scaffold_file fl d p) entries).
            scaffold_line rp (candidates (scaffold_file fl d p) entries ! i) 0 = Inr (ms ! i))"
    using fsd ok two by (rule scaffold_all)
next
  assume fsd: "fs d = Some entries"
    and r: "\<exists>c\<in>set entries. isl (spades_file fl d p scan0 c)"
  show "\<exists>e. spades_worker fl rp fs d l p ''no'' = ([], Some e)"
    using fsd r by (rule spades_raises)
next
  assume fsd: "fs d = Some entries"
    and r: "\<exists>c\<in>set entries. isl (scaffold_file fl d p scan0 c)"
  show "\<exists>e. scaffold_worker fl rp fs d l p ''no'' = ([], Some e)"
    using fsd r by (rule scaffold_raises)
qed

theorem all_policy_records_witness:
  "ex_fs ex_dir_good ''a/L'' = Some ex_dir_good
   \<and> list_all (\<lambda>c. \<not> isl (spades_file ex_float ''a/L'' [] scan0 c)) ex_dir_good
   \<and> list_all (\<lambda>c. \<not> isl (scaffold_file ex_float ''a/L'' [] scan0 c) \<and> two_sequences c) ex_dir_good
   \<and> (\<exists>ms. spades_worker ex_float ex_repr (ex_fs ex_dir_good) ''a/L'' ''L'' [] ''no'' = (ms, None)
        \<and> length ms = length [ex_spades_A, ex_spades_B]
        \<and> (\<forall>i<length [ex_spades_A, ex_spades_B].
              spades_line ex_repr ([ex_spades_A, ex_spades_B] ! i) 0 = Inr (ms ! i)))
   \<and> (\<exists>ms. scaffold_worker ex_float ex_repr (ex_fs ex_dir_good) ''a/L'' ''L'' [] ''no'' = (ms, None)
        \<and> length ms = length [ex_scaffold_A, ex_scaffold_B]
        \<and> (\<forall>i<length [ex_scaffold_A, ex_scaffold_B].
              scaffold_line ex_repr ([ex_scaffold_A, ex_scaffold_B] ! i) 0 = Inr (ms ! i)))
   \<and> ex_fs ex_dir_mixed ''a/L'' = Some ex_dir_mixed
   \<and> (\<exists>c\<in>set ex_dir_mixed. isl (spades_file ex_float ''a/L'' [] scan0 c))
   \<and> (\<exists>e. spades_worker ex_float ex_repr (ex_fs ex_dir_mixed) ''a/L'' ''L'' [] ''no'' = ([], Some e))
   \<and> (\<exists>c\<in>set ex_dir_mixed. isl (scaffold_file ex_float ''a/L'' [] scan0 c))
   \<and> (\<exists>e. scaffold_worker ex_float ex_repr (ex_fs ex_dir_mixed) ''a/L'' ''L'' [] ''no'' = ([], Some e))"
proof -
  have fsd: "ex_fs ex_dir_good ''a/L'' = Some ex_dir_good" by (simp add: ex_fs_def)
  note t = all_policy_records[where fs="ex_fs ex_dir_good" and d="''a/L''" and entries=ex_dir_good
      and fl=ex_float and p="[]" and rp=ex_repr and l="''L''"]
  from t fsd ex_ok_spades have
    c1: "\<exists>ms. spades_worker ex_float ex_repr (ex_fs ex_dir_good) ''a/L'' ''L'' [] ''no'' = (ms, None)
      \<and> length ms = length (candidates (spades_file ex_float ''a/L'' []) ex_dir_good)
      \<and> (\<forall>i<length (candidates (spades_file ex_float ''a/L'' []) ex_dir_good).
            spades_line ex_repr (candidates (spades_file ex_float ''a/L'' []) ex_dir_good ! i) 0 = Inr (ms ! i))"
    by blast
  from t fsd ex_ok_scaffold have
    c2: "\<exists>ms. scaffold_worker ex_float ex_repr (ex_fs ex_dir_good) ''a/L'' ''L'' [] ''no'' = (ms, None)
      \<and> length ms = length (candidates (scaffold_file ex_float ''a/L'' []) ex_dir_good)
      \<and> (\<forall>i<length (candidates (scaffold_file ex_float ''a/L'' []) ex_dir_good).
            scaffold_line ex_repr (candidates (scaffold_file ex_float ''a/L'' []) ex_dir_good ! i) 0 = Inr (ms ! i))"
    by blast
  note u = all_policy_records[where fs="ex_fs ex_dir_mixed" and d="''a/L''" and entries=ex_dir_mixed
      and fl=ex_float and p="[]" and rp=ex_repr and l="''L''"]
  from u ex_fs_mixed ex_raises_spades have
    r1: "\<exists>e. spades_worker ex_float ex_repr (ex_fs ex_dir_mixed) ''a/L'' ''L'' [] ''no'' = ([], Some e)"
    by blast
  from u ex_fs_mixed ex_raises_scaffold have
    r2: "\<exists>e. scaffold_worker ex_float ex_repr (ex_fs ex_dir_mixed) ''a/L'' ''L'' [] ''no'' = ([], Some e)"
    by blast
  from fsd ex_ok_spades[folded list_all_iff] ex_ok_scaffold[folded list_all_iff]
    c1[unfolded ex_candidates_spades] c2[unfolded ex_candidates_scaffold]
    ex_fs_mixed ex_raises_spades r1 ex_raises_scaffold r2
  show ?thesis by (intro conjI)
qed

lemma spades_scan_Inr_ok:
  assumes "scan_dir (spades_file fl d p) cs scan0 = Inr st"
  shows "\<forall>c\<in>set cs. \<not> isl (spades_file fl d p scan0 c)"
proof (rule ccontr)
  assume "\<not> (\<forall>c\<in>set cs. \<not> isl (spades_file fl d p scan0 c))"
  then have e: "\<exists>c\<in>set cs. isl (spades_file fl d p scan0 c)" by simp
  have body: "\<And>st c. spades_file fl d p st c = map_sum id (merge st) (spades_file fl d p scan0 c)"
    by (rule spades_file_alone)
  have "isl (scan_dir (spades_file fl d p) cs scan0)"
    using body e by (rule scan_dir_raises)
  with assms show False by simp
qed

lemma scaffold_scan_Inr_ok:
  assumes "scan_dir (scaffold_file fl d p) cs scan0 = Inr st"
  shows "\<forall>c\<in>set cs. \<not> isl (scaffold_file fl d p scan0 c)"
proof (rule ccontr)
  assume "\<not> (\<forall>c\<in>set cs. \<not> isl (scaffold_file fl d p scan0 c))"
  then have e: "\<exists>c\<in>set cs. isl (scaffold_file fl d p scan0 c)" by simp
  have body: "\<And>st c. scaffold_file fl d p st c = map_sum id (merge st) (scaffold_file fl d p scan0 c)"
    by (rule scaffold_file_alone)
  have "isl (scan_dir (scaffold_file fl d p) cs scan0)"
    using body e by (rule scan_dir_raises)
  with assms show False by simp
qed

text \<open>The state a completed scan ends with.\<close>

lemma spades_scan_Inr:
  assumes st: "scan_dir (spades_file fl d p) cs scan0 = Inr st"
  shows "holds st (candidates (spades_file fl d p) cs)
     \<and> aligned st = (candidates (spades_file fl d p) cs \<noteq> [])"
  using spades_scan_holds[OF spades_scan_Inr_ok[OF st]] st by auto

lemma scaffold_scan_Inr:
  assumes st: "scan_dir (scaffold_file fl d p) cs scan0 = Inr st"
  shows "holds st (candidates (scaffold_file fl d p) cs)
     \<and> length (candidates (scaffold_file fl d p) cs) \<le> length (nogap_id st)
     \<and> ((\<forall>c\<in>set cs. two_sequences c) \<longrightarrow>
            nogap_id st = map (\<lambda>s. hd (nogap_id s)) (candidates (scaffold_file fl d p) cs))
     \<and> (candidates (scaffold_file fl d p) cs \<noteq> [] \<longrightarrow> aligned st)"
  using scaffold_scan_holds[OF scaffold_scan_Inr_ok[OF st]] st by auto

lemma fst_put_all_Nil: "fst (put_all (map f [])) = []"
  by simp

lemma spades_none:
  assumes "fs d = None \<or> (\<exists>entries. fs d = Some entries \<and> candidates (spades_file fl d p) entries = [])"
  shows "fst (spades_worker fl rp fs d l p bo) = []"
proof (cases "fs d")
  case None
  then show ?thesis by (simp add: spades_worker_def)
next
  case (Some entries)
  with assms have c: "candidates (spades_file fl d p) entries = []" by auto
  show ?thesis
  proof (cases "scan_dir (spades_file fl d p) entries scan0")
    case (Inl e)
    with Some show ?thesis by (simp add: spades_worker_def)
  next
    case (Inr st)
    from spades_scan_Inr[OF Inr] c have "\<not> aligned st" by simp
    with Some Inr show ?thesis by (simp add: spades_worker_def)
  qed
qed

lemma scaffold_none:
  assumes "fs d = None \<or> (\<exists>entries. fs d = Some entries \<and> candidates (scaffold_file fl d p) entries = [])"
  shows "fst (scaffold_worker fl rp fs d l p bo) = []"
proof (cases "fs d")
  case None
  then show ?thesis by (simp add: scaffold_worker_def)
next
  case (Some entries)
  with assms have c: "candidates (scaffold_file fl d p) entries = []" by auto
  show ?thesis
  proof (cases "scan_dir (scaffold_file fl d p) entries scan0")
    case (Inl e)
    with Some show ?thesis by (simp add: scaffold_worker_def)
  next
    case (Inr st)
    from scaffold_scan_Inr[OF Inr] c have "holds st []" by simp
    then have e: "ids st = []" "files st = []" by (simp_all add: holds_def)
    have line: "\<And>x. scaffold_line rp st x = Inl IndexError"
      by (simp add: scaffold_line_def subscript_def e)
    show ?thesis
      using Some Inr
      by (simp add: scaffold_worker_def e line split: sum.splits)
  qed
qed







section \<open>Parallel lists, empty loci and failures\<close>

lemma spades_files_iff_retained:
  "spades_file fl d p scan0 c = Inr s \<Longrightarrow> (files s \<noteq> []) = spades_retained p c"
  by (auto simp add: spades_file_def spades_retained_def append_candidate_def scan0_def Let_def
      split: if_splits sum.splits option.splits)

lemma append_candidate_files:
  "append_candidate fl t isolate path rep a b = Inr s \<Longrightarrow> files s = files t @ [path]"
  by (auto simp add: append_candidate_def split: sum.splits option.splits)

lemma scaffold_files_iff_retained:
  "scaffold_file fl d p scan0 c = Inr s \<Longrightarrow> (files s \<noteq> []) = scaffold_retained p c"
proof -
  assume a: "scaffold_file fl d p scan0 c = Inr s"
  show ?thesis
  proof (cases "scaffold_retained p c")
    case False
    then have "s = scan0 \<or> s = scan0\<lparr>aligned := True\<rparr>"
      using a by (auto simp add: scaffold_file_def scaffold_retained_def Let_def split: if_splits)
    then have "files s = []" by (auto simp add: scan0_def)
    with False show ?thesis by simp
  next
    case True
    then have "\<exists>t isolate path a' b'. append_candidate fl t isolate path (snd c) a' b' = Inr s"
      using a by (auto simp add: scaffold_file_def scaffold_retained_def Let_def split: if_splits sum.splits) blast+
    then obtain t isolate path a' b' where
      "append_candidate fl t isolate path (snd c) a' b' = Inr s" by blast
    from append_candidate_files[OF this] have "files s \<noteq> []" by simp
    with True show ?thesis by simp
  qed
qed

lemma candidates_count:
  assumes ok: "\<forall>c\<in>set cs. \<not> isl (body scan0 c)"
    and iff: "\<And>c s. body scan0 c = Inr s \<Longrightarrow> (files s \<noteq> []) = retained c"
  shows "length (candidates body cs) = length (filter retained cs)"
proof -
  have "filter (\<lambda>s. files s \<noteq> []) (map (\<lambda>c. projr (body scan0 c)) cs)
        = map (\<lambda>c. projr (body scan0 c)) (filter (\<lambda>c. files (projr (body scan0 c)) \<noteq> []) cs)"
    by (simp add: filter_map comp_def)
  moreover have "filter (\<lambda>c. files (projr (body scan0 c)) \<noteq> []) cs = filter retained cs"
  proof (rule filter_cong[OF refl])
    fix c assume "c \<in> set cs"
    with ok obtain s where s: "body scan0 c = Inr s" by (cases "body scan0 c") auto
    from iff[OF s] s show "(files (projr (body scan0 c)) \<noteq> []) = retained c" by simp
  qed
  ultimately show ?thesis
    by (simp add: candidates_ok[where body=body and cs=cs, OF ok])
qed

lemma spades_lists:
  assumes st: "scan_dir (spades_file fl d p) entries scan0 = Inr st"
  shows "holds st (candidates (spades_file fl d p) entries)
     \<and> length (candidates (spades_file fl d p) entries) = length (filter (spades_retained p) entries)"
proof -
  have iff: "\<And>c s. spades_file fl d p scan0 c = Inr s \<Longrightarrow> (files s \<noteq> []) = spades_retained p c"
    by (rule spades_files_iff_retained)
  have "length (candidates (spades_file fl d p) entries) = length (filter (spades_retained p) entries)"
    using spades_scan_Inr_ok[OF st] iff by (rule candidates_count)
  with spades_scan_Inr[OF st] show ?thesis by simp
qed

lemma scaffold_lists:
  assumes st: "scan_dir (scaffold_file fl d p) entries scan0 = Inr st"
    and two: "\<forall>c\<in>set entries. two_sequences c"
  shows "holds st (candidates (scaffold_file fl d p) entries)
     \<and> length (nogap_id st) = length (candidates (scaffold_file fl d p) entries)
     \<and> length (candidates (scaffold_file fl d p) entries) = length (filter (scaffold_retained p) entries)"
proof -
  have iff: "\<And>c s. scaffold_file fl d p scan0 c = Inr s \<Longrightarrow> (files s \<noteq> []) = scaffold_retained p c"
    by (rule scaffold_files_iff_retained)
  have "length (candidates (scaffold_file fl d p) entries) = length (filter (scaffold_retained p) entries)"
    using scaffold_scan_Inr_ok[OF st] iff by (rule candidates_count)
  with scaffold_scan_Inr[OF st] two show ?thesis by simp
qed

text \<open>
  C9: when the scan of a locus ends without an exception (and, for
  \<open>scaffold_worker\<close>, every report is an alignment of exactly two sequences), all the
  parallel lists have the same length, the number of retained files, and the index
  that \<open>best_only = 'yes'\<close> computes is below that length.
\<close>

theorem parallel_lists:
  "(scan_dir (spades_file fl d p) entries scan0 = Inr st \<longrightarrow>
      length (isos st) = length (filter (spades_retained p) entries)
      \<and> length (scores st) = length (filter (spades_retained p) entries)
      \<and> length (ids st) = length (filter (spades_retained p) entries)
      \<and> length (cov st) = length (filter (spades_retained p) entries)
      \<and> length (length_l st) = length (filter (spades_retained p) entries)
      \<and> length (ref_len st) = length (filter (spades_retained p) entries)
      \<and> length (files st) = length (filter (spades_retained p) entries)
      \<and> (\<forall>m best. py_max num_less (ids st) = Inr m \<and> py_index num_equal (ids st) m = Inr best
            \<longrightarrow> best < length (filter (spades_retained p) entries)))
   \<and> (scan_dir (scaffold_file fl d p) entries scan0 = Inr st' \<and> (\<forall>c\<in>set entries. two_sequences c) \<longrightarrow>
      length (isos st') = length (filter (scaffold_retained p) entries)
      \<and> length (scores st') = length (filter (scaffold_retained p) entries)
      \<and> length (ids st') = length (filter (scaffold_retained p) entries)
      \<and> length (cov st') = length (filter (scaffold_retained p) entries)
      \<and> length (length_l st') = length (filter (scaffold_retained p) entries)
      \<and> length (ref_len st') = length (filter (scaffold_retained p) entries)
      \<and> length (files st') = length (filter (scaffold_retained p) entries)
      \<and> length (nogap_id st') = length (filter (scaffold_retained p) entries)
      \<and> (\<forall>m best. py_max str_less (nogap_id st') = Inr m \<and> py_index str_equal (nogap_id st') m = Inr best
            \<longrightarrow> best < length (filter (scaffold_retained p) entries)))"
proof (intro conjI impI)
  assume st: "scan_dir (spades_file fl d p) entries scan0 = Inr st"
  from spades_lists[OF st] have h: "holds st (candidates (spades_file fl d p) entries)"
    and n: "length (candidates (spades_file fl d p) entries) = length (filter (spades_retained p) entries)"
    by simp_all
  note l = holds_length[OF h, unfolded n]
  from l show "length (isos st) = length (filter (spades_retained p) entries)" by simp
  from l show "length (scores st) = length (filter (spades_retained p) entries)" by simp
  from l show "length (ids st) = length (filter (spades_retained p) entries)" by simp
  from l show "length (cov st) = length (filter (spades_retained p) entries)" by simp
  from l show "length (length_l st) = length (filter (spades_retained p) entries)" by simp
  from l show "length (ref_len st) = length (filter (spades_retained p) entries)" by simp
  from l show "length (files st) = length (filter (spades_retained p) entries)" by simp
  from l have "length (ids st) = length (filter (spades_retained p) entries)" by simp
  then show "\<forall>m best. py_max num_less (ids st) = Inr m \<and> py_index num_equal (ids st) m = Inr best
            \<longrightarrow> best < length (filter (spades_retained p) entries)"
    using py_index_bound[of num_equal "ids st"] by auto
next
  assume a: "scan_dir (scaffold_file fl d p) entries scan0 = Inr st' \<and> (\<forall>c\<in>set entries. two_sequences c)"
  then have st: "scan_dir (scaffold_file fl d p) entries scan0 = Inr st'"
    and two: "\<forall>c\<in>set entries. two_sequences c" by simp_all
  from scaffold_lists[OF st two] have h: "holds st' (candidates (scaffold_file fl d p) entries)"
    and g: "length (nogap_id st') = length (candidates (scaffold_file fl d p) entries)"
    and n: "length (candidates (scaffold_file fl d p) entries) = length (filter (scaffold_retained p) entries)"
    by simp_all
  note l = holds_length[OF h, unfolded n]
  from l show "length (isos st') = length (filter (scaffold_retained p) entries)" by simp
  from l show "length (scores st') = length (filter (scaffold_retained p) entries)" by simp
  from l show "length (ids st') = length (filter (scaffold_retained p) entries)" by simp
  from l show "length (cov st') = length (filter (scaffold_retained p) entries)" by simp
  from l show "length (length_l st') = length (filter (scaffold_retained p) entries)" by simp
  from l show "length (ref_len st') = length (filter (scaffold_retained p) entries)" by simp
  from l show "length (files st') = length (filter (scaffold_retained p) entries)" by simp
  from g n show gn: "length (nogap_id st') = length (filter (scaffold_retained p) entries)" by simp
  then show "\<forall>m best. py_max str_less (nogap_id st') = Inr m \<and> py_index str_equal (nogap_id st') m = Inr best
            \<longrightarrow> best < length (filter (scaffold_retained p) entries)"
    using py_index_bound[of str_equal "nogap_id st'"] by auto
qed

lemma ex_scan_spades_good:
  "scan_dir (spades_file ex_float ''a/L'' []) ex_dir_good scan0 = Inr (merge ex_spades_A ex_spades_B)"
proof -
  have "spades_file ex_float ''a/L'' [] ex_spades_A (ex_name2, ex_report2) = Inr (merge ex_spades_A ex_spades_B)"
    using spades_file_alone[of ex_float "''a/L''" "[]" ex_spades_A "(ex_name2, ex_report2)"]
    by (simp add: ex_alone)
  then show ?thesis by (simp add: ex_dir_good_def ex_alone)
qed

theorem parallel_lists_witness:
  "scan_dir (spades_file ex_float ''a/L'' []) ex_dir_good scan0 = Inr (merge ex_spades_A ex_spades_B)
   \<and> scan_dir (scaffold_file ex_float ''a/L'' []) ex_dir_good scan0 = Inr (merge ex_scaffold_A ex_scaffold_B)
   \<and> list_all two_sequences ex_dir_good
   \<and> length (ids (merge ex_spades_A ex_spades_B)) = length (filter (spades_retained []) ex_dir_good)
   \<and> length (files (merge ex_spades_A ex_spades_B)) = length (filter (spades_retained []) ex_dir_good)
   \<and> length (files (merge ex_scaffold_A ex_scaffold_B)) = length (filter (scaffold_retained []) ex_dir_good)
   \<and> length (nogap_id (merge ex_scaffold_A ex_scaffold_B)) = length (filter (scaffold_retained []) ex_dir_good)
   \<and> length (nogap_id (merge ex_scaffold_A ex_scaffold_B)) = 2"
proof -
  have two: "\<forall>c\<in>set ex_dir_good. two_sequences c" using ex_ok_scaffold by simp
  note t = parallel_lists[where fl=ex_float and d="''a/L''" and p="[]" and entries=ex_dir_good
      and st="merge ex_spades_A ex_spades_B" and st'="merge ex_scaffold_A ex_scaffold_B"]
  have n: "length (nogap_id (merge ex_scaffold_A ex_scaffold_B)) = 2"
    by (simp add: merge_def ex_scaffold_A_def ex_scaffold_B_def)
  from t ex_scan_spades_good ex_scan_scaffold_good two n two[folded list_all_iff]
  show ?thesis by simp
qed

text \<open>
  C4: a locus with no valid candidate, or whose directory is missing, has no record
  emitted, whatever \<open>best_only\<close> is. (For a Scaffold locus whose only matching report
  is of size zero the file is skipped, \<open>aligned\<close> is already set, and under
  \<open>best_only = 'yes'\<close> the worker then ends in the ValueError of \<open>max\<close> on an
  empty list; no record has been emitted.)
\<close>

theorem no_candidates_no_records:
  "(fs d = None \<or> (\<exists>entries. fs d = Some entries \<and> candidates (spades_file fl d p) entries = [])
      \<longrightarrow> fst (spades_worker fl rp fs d l p bo) = [])
   \<and> (fs d = None \<or> (\<exists>entries. fs d = Some entries \<and> candidates (scaffold_file fl d p) entries = [])
      \<longrightarrow> fst (scaffold_worker fl rp fs d l p bo) = [])"
  using spades_none[of fs d fl p rp l bo] scaffold_none[of fs d fl p rp l bo] by blast

lemma ex_candidates_empty:
  "candidates (scaffold_file ex_float ''a/L'' []) ex_dir_empty = []"
  by (simp add: candidates_def valid_candidate_def ex_dir_empty_def ex_empty_scaffold)
     (simp add: scan0_def)

lemma ex_scan_empty:
  "scan_dir (scaffold_file ex_float ''a/L'' []) ex_dir_empty scan0 = Inr (scan0\<lparr>aligned := True\<rparr>)"
  by (simp add: ex_dir_empty_def ex_empty_scaffold)

lemma ex_empty_worker_yes:
  "scaffold_worker ex_float ex_repr (ex_fs ex_dir_empty) ''a/L'' ''L'' [] ''yes'' = ([], Some ValueError)"
  by (simp add: scaffold_worker_def ex_fs_def ex_scan_empty) (simp add: scan0_def)

lemma ex_empty_worker_no:
  "scaffold_worker ex_float ex_repr (ex_fs ex_dir_empty) ''a/L'' ''L'' [] ''no'' = ([], None)"
  by (simp add: scaffold_worker_def ex_fs_def ex_scan_empty) (simp add: scan0_def)

theorem no_candidates_no_records_witness:
  "ex_fs ex_dir_empty ''a/L'' = Some ex_dir_empty
   \<and> candidates (scaffold_file ex_float ''a/L'' []) ex_dir_empty = []
   \<and> fst (scaffold_worker ex_float ex_repr (ex_fs ex_dir_empty) ''a/L'' ''L'' [] ''yes'') = []
   \<and> scaffold_worker ex_float ex_repr (ex_fs ex_dir_empty) ''a/L'' ''L'' [] ''yes'' = ([], Some ValueError)
   \<and> scaffold_worker ex_float ex_repr (ex_fs ex_dir_empty) ''a/L'' ''L'' [] ''no'' = ([], None)
   \<and> ex_fs ex_dir_empty ''a/M'' = None
   \<and> fst (spades_worker ex_float ex_repr (ex_fs ex_dir_empty) ''a/M'' ''M'' [] ''yes'') = []"
proof -
  have f1: "ex_fs ex_dir_empty ''a/L'' = Some ex_dir_empty" and f2: "ex_fs ex_dir_empty ''a/M'' = None"
    by (simp_all add: ex_fs_def)
  note t1 = no_candidates_no_records[where fs="ex_fs ex_dir_empty" and d="''a/L''" and fl=ex_float
      and p="[]" and rp=ex_repr and l="''L''" and bo="''yes''"]
  note t2 = no_candidates_no_records[where fs="ex_fs ex_dir_empty" and d="''a/M''" and fl=ex_float
      and p="[]" and rp=ex_repr and l="''M''" and bo="''yes''"]
  have c1: "fst (scaffold_worker ex_float ex_repr (ex_fs ex_dir_empty) ''a/L'' ''L'' [] ''yes'') = []"
    using t1 f1 ex_candidates_empty by blast
  have c2: "fst (spades_worker ex_float ex_repr (ex_fs ex_dir_empty) ''a/M'' ''M'' [] ''yes'') = []"
    using t2 f2 by blast
  from f1 ex_candidates_empty c1 ex_empty_worker_yes ex_empty_worker_no f2 c2
  show ?thesis by (intro conjI)
qed







section \<open>The queue and its writer\<close>

text \<open>The shape of a record line: columns joined by tabs, then a newline.\<close>

lemma spades_line_shape:
  assumes "spades_line rp st x = Inr m"
  shows "\<exists>c1 c2 c3 c4 c5 c6. m = c1 @ tab @ c2 @ tab @ c3 @ tab @ c4 @ tab @ c5 @ tab @ c6 @ newline"
proof -
  from assms obtain a b c d e f where
    "m = format_num rp a @ tab @ rp b @ tab @ str_int c @ tab @ d @ tab @ str_int e @ tab @ f @ newline"
    by (auto simp add: spades_line_def split: sum.splits)
  then show ?thesis by blast
qed

lemma scaffold_line_shape:
  assumes "scaffold_line rp st x = Inr m"
  shows "\<exists>c1 c2 c3 c4 c5 c6 c7.
      m = c1 @ tab @ c2 @ tab @ c3 @ tab @ c4 @ tab @ c5 @ tab @ c6 @ tab @ c7 @ newline"
proof -
  from assms obtain a b c d e f g where
    "m = format_num rp a @ tab @ rp b @ tab @ str_int c @ tab @ d @ tab @ str_int e @ tab @ f
         @ tab @ g @ newline"
    by (auto simp add: scaffold_line_def split: sum.splits)
  then show ?thesis by blast
qed

lemma put_all_mem: "m \<in> set (fst (put_all rs)) \<Longrightarrow> Inr m \<in> set rs"
  by (induction rs rule: put_all.induct) auto

lemma spades_worker_messages:
  "m \<in> set (fst (spades_worker fl rp fs d l p bo)) \<Longrightarrow> \<exists>st x. spades_line rp st x = Inr m"
  by (auto simp add: spades_worker_def split: option.splits sum.splits if_splits dest!: put_all_mem)
     blast+

lemma scaffold_worker_messages:
  "m \<in> set (fst (scaffold_worker fl rp fs d l p bo)) \<Longrightarrow> \<exists>st x. scaffold_line rp st x = Inr m"
  by (auto simp add: scaffold_worker_def split: option.splits sum.splits if_splits dest!: put_all_mem)
     blast+

lemma ends_newline_not_stop: "m = body @ newline \<Longrightarrow> m \<noteq> ''stop''"
proof
  assume a: "m = body @ newline" and b: "m = ''stop''"
  then have "last (body @ newline) = last ''stop''" by simp
  then show False by (simp add: newline_def)
qed

lemma spades_message:
  assumes "m \<in> set (fst (spades_worker fl rp fs d l p bo))"
  shows "(\<exists>c1 c2 c3 c4 c5 c6. m = c1 @ tab @ c2 @ tab @ c3 @ tab @ c4 @ tab @ c5 @ tab @ c6 @ newline)
     \<and> m \<noteq> ''stop''"
proof -
  from spades_worker_messages[OF assms] obtain st x where "spades_line rp st x = Inr m" by blast
  from spades_line_shape[OF this] obtain c1 c2 c3 c4 c5 c6 where
    m: "m = c1 @ tab @ c2 @ tab @ c3 @ tab @ c4 @ tab @ c5 @ tab @ c6 @ newline" by blast
  then have "m = (c1 @ tab @ c2 @ tab @ c3 @ tab @ c4 @ tab @ c5 @ tab @ c6) @ newline" by simp
  then have "m \<noteq> ''stop''" by (rule ends_newline_not_stop)
  with m show ?thesis by blast
qed

lemma scaffold_message:
  assumes "m \<in> set (fst (scaffold_worker fl rp fs d l p bo))"
  shows "(\<exists>c1 c2 c3 c4 c5 c6 c7.
        m = c1 @ tab @ c2 @ tab @ c3 @ tab @ c4 @ tab @ c5 @ tab @ c6 @ tab @ c7 @ newline)
     \<and> m \<noteq> ''stop''"
proof -
  from scaffold_worker_messages[OF assms] obtain st x where "scaffold_line rp st x = Inr m" by blast
  from scaffold_line_shape[OF this] obtain c1 c2 c3 c4 c5 c6 c7 where
    m: "m = c1 @ tab @ c2 @ tab @ c3 @ tab @ c4 @ tab @ c5 @ tab @ c6 @ tab @ c7 @ newline" by blast
  then have "m = (c1 @ tab @ c2 @ tab @ c3 @ tab @ c4 @ tab @ c5 @ tab @ c6 @ tab @ c7) @ newline"
    by simp
  then have "m \<noteq> ''stop''" by (rule ends_newline_not_stop)
  with m show ?thesis by blast
qed

lemma dispatch_message:
  assumes "m \<in> set (concat (map fst (concat (map (dispatch fl rp ar fs) loc_map))))"
  shows "m \<noteq> ''stop''"
proof -
  from assms obtain line job where "job \<in> set (dispatch fl rp ar fs line)" and m: "m \<in> set (fst job)"
    by auto
  then have "(\<exists>d l. job = spades_worker fl rp fs d l (priority ar) (best_only ar))
      \<or> (\<exists>d l. job = scaffold_worker fl rp fs d l (priority ar) (best_only ar))"
    by (auto simp add: dispatch_def Let_def split: if_splits)
  with m show ?thesis using spades_message scaffold_message by blast
qed

lemma listener_data:
  "\<forall>m\<in>set q. m \<noteq> ''stop'' \<Longrightarrow>
   listener q out = None \<and> listener (q @ ''stop'' # rest) out = Some (out @ concat q)"
  by (induction q arbitrary: out) auto

text \<open>
  C10: every message a worker puts on the queue is a line of six (\<open>spades_worker\<close>) or
  seven (\<open>scaffold_worker\<close>) columns joined by tabs and closed by a newline, so it is
  not \<open>'stop'\<close>. Hence, whatever the order in which the messages of the workers of a
  run reach the queue, \<open>listener\<close> does not leave its loop on them, and once
  \<open>main\<close> has put \<open>'stop'\<close> after them it returns with all of them written.
\<close>

theorem messages_never_stop:
  "(\<forall>m\<in>set (fst (spades_worker fl rp fs d l p bo)).
      (\<exists>c1 c2 c3 c4 c5 c6. m = c1 @ tab @ c2 @ tab @ c3 @ tab @ c4 @ tab @ c5 @ tab @ c6 @ newline)
      \<and> m \<noteq> ''stop'')
   \<and> (\<forall>m\<in>set (fst (scaffold_worker fl rp fs d l p bo)).
      (\<exists>c1 c2 c3 c4 c5 c6 c7.
          m = c1 @ tab @ c2 @ tab @ c3 @ tab @ c4 @ tab @ c5 @ tab @ c6 @ tab @ c7 @ newline)
      \<and> m \<noteq> ''stop'')
   \<and> (\<forall>q. set q \<subseteq> set (concat (map fst (concat (map (dispatch fl rp ar fs) loc_map)))) \<longrightarrow>
        listener q out = None \<and> listener (q @ [''stop'']) out = Some (out @ concat q))"
proof (intro conjI allI impI ballI)
  fix m assume "m \<in> set (fst (spades_worker fl rp fs d l p bo))"
  from spades_message[OF this]
  show "\<exists>c1 c2 c3 c4 c5 c6. m = c1 @ tab @ c2 @ tab @ c3 @ tab @ c4 @ tab @ c5 @ tab @ c6 @ newline"
    and "m \<noteq> ''stop''" by simp_all
next
  fix m assume "m \<in> set (fst (scaffold_worker fl rp fs d l p bo))"
  from scaffold_message[OF this]
  show "\<exists>c1 c2 c3 c4 c5 c6 c7.
          m = c1 @ tab @ c2 @ tab @ c3 @ tab @ c4 @ tab @ c5 @ tab @ c6 @ tab @ c7 @ newline"
    and "m \<noteq> ''stop''" by simp_all
next
  fix q assume sub: "set q \<subseteq> set (concat (map fst (concat (map (dispatch fl rp ar fs) loc_map))))"
  have d: "\<forall>m\<in>set q. m \<noteq> ''stop''"
  proof
    fix m assume "m \<in> set q"
    with sub have "m \<in> set (concat (map fst (concat (map (dispatch fl rp ar fs) loc_map))))" by blast
    then show "m \<noteq> ''stop''" by (rule dispatch_message)
  qed
  from listener_data[OF d, of out "[]"]
  show "listener q out = None" and "listener (q @ [''stop'']) out = Some (out @ concat q)"
    by simp_all
qed

lemma ex_dispatch_hga:
  "dispatch fl rp (ex_args\<lparr>assmb_type := ''HGA''\<rparr>) fs (ex_map_line ''L'')
     = [scaffold_worker fl rp fs ''a/L'' ''L'' [] ''yes'']"
  by (simp add: dispatch_def ex_args_def ex_map_line_def rstrip_def split_first_def isspace_def
      tab_def newline_def Let_def)

theorem messages_never_stop_witness:
  "fst (scaffold_worker ex_float ex_repr (ex_fs ex_dir_good) ''a/L'' ''L'' [] ''yes'')
     = [''75.0'' @ tab @ ''1.0'' @ tab @ ''4'' @ tab @ ''A'' @ tab @ ''4'' @ tab @ ''a/L/'' @ ex_name1
          @ tab @ ''75.00'' @ newline]
   \<and> ''75.0'' @ tab @ ''1.0'' @ tab @ ''4'' @ tab @ ''A'' @ tab @ ''4'' @ tab @ ''a/L/'' @ ex_name1
          @ tab @ ''75.00'' @ newline \<noteq> ''stop''
   \<and> listener [''75.0'' @ tab @ ''1.0'' @ tab @ ''4'' @ tab @ ''A'' @ tab @ ''4'' @ tab @ ''a/L/'' @ ex_name1
          @ tab @ ''75.00'' @ newline] [] = None
   \<and> listener [''75.0'' @ tab @ ''1.0'' @ tab @ ''4'' @ tab @ ''A'' @ tab @ ''4'' @ tab @ ''a/L/'' @ ex_name1
          @ tab @ ''75.00'' @ newline, ''stop''] []
       = Some (''75.0'' @ tab @ ''1.0'' @ tab @ ''4'' @ tab @ ''A'' @ tab @ ''4'' @ tab @ ''a/L/'' @ ex_name1
          @ tab @ ''75.00'' @ newline)"
proof -
  let ?m = "''75.0'' @ tab @ ''1.0'' @ tab @ ''4'' @ tab @ ''A'' @ tab @ ''4'' @ tab @ ''a/L/'' @ ex_name1
          @ tab @ ''75.00'' @ newline"
  note t = messages_never_stop[where fl=ex_float and rp=ex_repr and fs="ex_fs ex_dir_good"
      and d="''a/L''" and l="''L''" and p="[]" and bo="''yes''"
      and ar="ex_args\<lparr>assmb_type := ''HGA''\<rparr>" and loc_map="[ex_map_line ''L'']" and out="[]"]
  have w: "fst (scaffold_worker ex_float ex_repr (ex_fs ex_dir_good) ''a/L'' ''L'' [] ''yes'') = [?m]"
    by (simp add: ex_scaffold_worker_good)
  from t have a: "\<forall>m\<in>set (fst (scaffold_worker ex_float ex_repr (ex_fs ex_dir_good) ''a/L'' ''L'' [] ''yes'')).
      m \<noteq> ''stop''" by blast
  have c1: "?m \<noteq> ''stop''" using a unfolding w by simp
  from t have b: "\<forall>q. set q \<subseteq> set (concat (map fst (concat (map (dispatch ex_float ex_repr
        (ex_args\<lparr>assmb_type := ''HGA''\<rparr>) (ex_fs ex_dir_good)) [ex_map_line ''L''])))) \<longrightarrow>
        listener q [] = None \<and> listener (q @ [''stop'']) [] = Some ([] @ concat q)"
    by blast
  have s: "set [?m] \<subseteq> set (concat (map fst (concat (map (dispatch ex_float ex_repr
        (ex_args\<lparr>assmb_type := ''HGA''\<rparr>) (ex_fs ex_dir_good)) [ex_map_line ''L'']))))"
    by (simp add: ex_dispatch_hga w)
  from b s have "listener [?m] [] = None \<and> listener ([?m] @ [''stop'']) [] = Some ([] @ concat [?m])"
    by blast
  then have c2: "listener [?m] [] = None" and c3: "listener [?m, ''stop''] [] = Some ?m"
    by simp_all
  from w c1 c2 c3 show ?thesis by (intro conjI)
qed

section \<open>Gap-free identity\<close>







end
